theory Spec2Isabelle
  imports Complex_Main "HOL-Library.Product_Lexorder"
begin

section \<open>Floating values\<close>

text \<open>
  The program computes on float64 columns of a pandas DataFrame. A discharge reading is a
  finite number or missing (NaN): it is modelled as \<open>real option\<close>, with \<open>None\<close> for NaN.
  The result of an operation may also be infinite, so results are of type \<open>fval\<close>.

  A sum, a product and a quotient are rounded to float64 by \<open>fl\<close>: 53 significant bits,
  ties to even, and infinity from \<open>2 ^ 1024\<close> on. Gradual underflow and the sign of zero
  are left out: the exponent has no lower bound. Differences, window means, the median, the
  standard deviation and the skewness are computed exactly.
\<close>

datatype fval = Fin real | PInf | NInf | NaN

definition pow2 :: "int \<Rightarrow> real" where
  "pow2 k = (if 0 \<le> k then 2 ^ nat k else 1 / 2 ^ nat (- k))"

definition round_even :: "real \<Rightarrow> int" where
  "round_even y =
     (let f = \<lfloor>y\<rfloor>; d = y - of_int f
      in if d < 1 / 2 then f else if 1 / 2 < d then f + 1 else if even f then f else f + 1)"

definition fl :: "real \<Rightarrow> fval" where
  "fl x =
     (if x = 0 then Fin 0
      else let e = \<lfloor>log 2 \<bar>x\<bar>\<rfloor>;
               u = pow2 (e - 52);
               r = of_int (round_even (x / u)) * u
           in if pow2 1024 \<le> \<bar>r\<bar> then (if 0 < x then PInf else NInf) else Fin r)"

text \<open>The running total of a sum and the next reading, which is finite.\<close>

fun fadd :: "fval \<Rightarrow> real \<Rightarrow> fval" where
  "fadd (Fin a) v = fl (a + v)"
| "fadd PInf v = PInf"
| "fadd NInf v = NInf"
| "fadd NaN v = NaN"

text \<open>numpy's true division: a zero divisor gives an infinity or NaN, never an exception.\<close>

fun fdiv :: "fval \<Rightarrow> fval \<Rightarrow> fval" where
  "fdiv NaN _ = NaN"
| "fdiv _ NaN = NaN"
| "fdiv (Fin a) (Fin b) =
     (if b \<noteq> 0 then fl (a / b) else if 0 < a then PInf else if a < 0 then NInf else NaN)"
| "fdiv (Fin a) _ = Fin 0"
| "fdiv PInf (Fin b) = (if b < 0 then NInf else PInf)"
| "fdiv NInf (Fin b) = (if b < 0 then PInf else NInf)"
| "fdiv _ _ = NaN"

fun fmul :: "fval \<Rightarrow> fval \<Rightarrow> fval" where
  "fmul NaN _ = NaN"
| "fmul _ NaN = NaN"
| "fmul (Fin a) (Fin b) = fl (a * b)"
| "fmul (Fin a) PInf = (if 0 < a then PInf else if a < 0 then NInf else NaN)"
| "fmul (Fin a) NInf = (if 0 < a then NInf else if a < 0 then PInf else NaN)"
| "fmul PInf (Fin b) = (if 0 < b then PInf else if b < 0 then NInf else NaN)"
| "fmul NInf (Fin b) = (if 0 < b then NInf else if b < 0 then PInf else NaN)"
| "fmul PInf PInf = PInf"
| "fmul PInf NInf = NInf"
| "fmul NInf PInf = NInf"
| "fmul NInf NInf = PInf"

text \<open>\<open>x > m\<close> for a finite \<open>x\<close>: every comparison with NaN is false.\<close>

fun fgt :: "real \<Rightarrow> fval \<Rightarrow> bool" where
  "fgt x (Fin m) = (m < x)"
| "fgt x NInf = True"
| "fgt x PInf = False"
| "fgt x NaN = False"

section \<open>Series primitives of pandas\<close>

type_synonym series = "real option list"

text \<open>The non-missing values of a series, in order: what every reduction with skipna sees.\<close>

fun valid :: "series \<Rightarrow> real list" where
  "valid [] = []"
| "valid (None # qs) = valid qs"
| "valid (Some v # qs) = v # valid qs"

text \<open>\<open>Series.sum()\<close>: NaN is skipped, the sum of no value is 0, and the total is rounded
  after every addition, so that it is infinite once it passes the largest float64. The
  values are added in the order of the series, as pandas does with bottleneck and as numpy
  does on a short series; numpy pairs the additions of a long series differently, which
  can change the last bit of the total.\<close>

definition Series_sum :: "series \<Rightarrow> fval" where
  "Series_sum qs = fold (\<lambda>v total. fadd total v) (valid qs) (Fin 0)"

text \<open>\<open>Series.mean()\<close>: NaN is skipped, and the mean of no value is NaN; otherwise the
  float64 sum over the number of values, rounded.\<close>

definition Series_mean :: "series \<Rightarrow> fval" where
  "Series_mean qs =
     (if valid qs = [] then NaN else fdiv (Series_sum qs) (Fin (real (length (valid qs)))))"

definition Series_max :: "series \<Rightarrow> fval" where
  "Series_max qs = (case valid qs of [] \<Rightarrow> NaN | v # vs \<Rightarrow> Fin (fold max vs v))"

definition Series_min :: "series \<Rightarrow> fval" where
  "Series_min qs = (case valid qs of [] \<Rightarrow> NaN | v # vs \<Rightarrow> Fin (fold min vs v))"

definition Series_median :: "series \<Rightarrow> fval" where
  "Series_median qs =
     (let s = sort (valid qs); n = length s
      in if n = 0 then NaN
         else if odd n then Fin (s ! (n div 2))
         else Fin ((s ! (n div 2 - 1) + s ! (n div 2)) / 2))"

text \<open>The sum of the k-th powers of the deviations from the mean.\<close>

definition moment :: "nat \<Rightarrow> real list \<Rightarrow> real" where
  "moment k vs =
     (let mu = sum_list vs / real (length vs) in sum_list (map (\<lambda>v. (v - mu) ^ k) vs))"

text \<open>\<open>std()\<close> with one delta degree of freedom: NaN below two values.\<close>

definition Series_std :: "series \<Rightarrow> fval" where
  "Series_std qs =
     (let vs = valid qs; n = length vs
      in if n < 2 then NaN else Fin (sqrt (moment 2 vs / real (n - 1))))"

text \<open>\<open>skew()\<close>, the adjusted Fisher-Pearson coefficient: NaN below three values, 0 when
  the values do not vary.\<close>

definition Series_skew :: "series \<Rightarrow> fval" where
  "Series_skew qs =
     (let vs = valid qs; n = length vs; m2 = moment 2 vs; m3 = moment 3 vs
      in if n < 3 then NaN
         else if m2 = 0 then Fin 0
         else Fin (real n * sqrt (real (n - 1)) / real (n - 2) * (m3 / (m2 * sqrt m2))))"

text \<open>\<open>Series.diff()\<close>: the first entry is NaN, and so is a difference with a NaN operand.\<close>

fun fsub :: "real option \<Rightarrow> real option \<Rightarrow> real option" where
  "fsub (Some a) (Some b) = Some (a - b)"
| "fsub _ _ = None"

fun diff_from :: "real option \<Rightarrow> series \<Rightarrow> series" where
  "diff_from p [] = []"
| "diff_from p (q # qs) = fsub q p # diff_from q qs"

fun Series_diff :: "series \<Rightarrow> series" where
  "Series_diff [] = []"
| "Series_diff (q # qs) = None # diff_from q qs"

definition Series_abs :: "series \<Rightarrow> series" where
  "Series_abs qs = map (map_option abs) qs"

text \<open>\<open>(Qvalues > m).sum()\<close>: the number of entries that compare greater than \<open>m\<close>; a
  missing entry never does.\<close>

definition count_gt :: "series \<Rightarrow> fval \<Rightarrow> nat" where
  "count_gt qs m = length (filter (\<lambda>q. case q of None \<Rightarrow> False | Some v \<Rightarrow> fgt v m) qs)"

text \<open>\<open>Series.rolling(w).mean()\<close>: the window at position \<open>i\<close> holds the entries at
  positions \<open>i + 1 - w\<close> to \<open>i\<close>; with the default \<open>min_periods = w\<close> the mean is NaN unless
  the window holds \<open>w\<close> non-missing values.\<close>

definition window :: "nat \<Rightarrow> series \<Rightarrow> nat \<Rightarrow> series" where
  "window w qs i = drop (i + 1 - w) (take (i + 1) qs)"

definition window_mean :: "nat \<Rightarrow> series \<Rightarrow> real option" where
  "window_mean min_periods win =
     (let obs = valid win
      in if length obs \<ge> min_periods \<and> obs \<noteq> []
         then Some (sum_list obs / real (length obs)) else None)"

definition rolling_mean :: "nat \<Rightarrow> series \<Rightarrow> series" where
  "rolling_mean w qs = map (\<lambda>i. window_mean w (window w qs i)) [0..<length qs]"

section \<open>The metric kernels\<close>

definition CalcTqmean :: "series \<Rightarrow> fval" where
  "CalcTqmean Qvalues =
     (let vals_gt_mean = count_gt Qvalues (Series_mean Qvalues)
      in fdiv (Fin (real vals_gt_mean)) (Fin (real (length Qvalues))))"

definition CalcRBindex :: "series \<Rightarrow> fval" where
  "CalcRBindex Qvalues =
     (let Dtd_abs_diff = Series_abs (Series_diff Qvalues);
          pathlength = Series_sum Dtd_abs_diff;
          discharge_tot = Series_sum Qvalues
      in fdiv pathlength discharge_tot)"

definition Calc7Q :: "series \<Rightarrow> fval" where
  "Calc7Q Qvalues = Series_min (rolling_mean 7 Qvalues)"

definition CalcExceed3TimesMedian :: "series \<Rightarrow> nat" where
  "CalcExceed3TimesMedian Qvalues =
     (let median_flow = Series_median Qvalues
      in count_gt Qvalues (fmul (Fin 3) median_flow))"

section \<open>The discharge table\<close>

text \<open>A calendar date: year, month, day, ordered lexicographically. A timestamp of the
  table is always a day of the calendar (\<open>valid_date\<close>).\<close>

type_synonym date = "int \<times> nat \<times> nat"

definition leap :: "int \<Rightarrow> bool" where
  "leap y \<longleftrightarrow> y mod 4 = 0 \<and> (y mod 100 \<noteq> 0 \<or> y mod 400 = 0)"

definition days_in_month :: "int \<Rightarrow> nat \<Rightarrow> nat" where
  "days_in_month y m =
     (if m = 2 then (if leap y then 29 else 28)
      else if m = 4 \<or> m = 6 \<or> m = 9 \<or> m = 11 then 30 else 31)"

fun valid_date :: "date \<Rightarrow> bool" where
  "valid_date (y, m, d) \<longleftrightarrow> 1 \<le> m \<and> m \<le> 12 \<and> 1 \<le> d \<and> d \<le> days_in_month y m"

text \<open>One row of the table \<open>read_csv\<close> returns, with the columns named in \<open>colNames\<close>;
  \<open>Date\<close> is the index.\<close>

record obs =
  agency_cd :: string
  site_no :: int
  Date :: date
  Discharge :: "real option"
  Quality :: string

type_synonym frame = "obs list"

text \<open>\<open>DataDF["Discharge"].isna().sum()\<close>\<close>

definition isna_sum :: "frame \<Rightarrow> nat" where
  "isna_sum df = length (filter (\<lambda>r. Discharge r = None) df)"

text \<open>\<open>DataDF.loc[DataDF['Discharge'] < 0, 'Discharge'] = np.NaN\<close>\<close>

definition negative_to_nan :: "obs \<Rightarrow> obs" where
  "negative_to_nan r =
     (case Discharge r of
        None \<Rightarrow> r
      | Some v \<Rightarrow> if v < 0 then r\<lparr>Discharge := None\<rparr> else r)"

text \<open>\<open>ReadData\<close>, from the table that \<open>read_csv\<close> and \<open>set_index\<close> produce for the file
  (the parser is pandas'; the token Eqp is already NaN there). The count is taken before
  the negative readings are replaced.\<close>

definition ReadData :: "frame \<Rightarrow> frame \<times> nat" where
  "ReadData parsed =
     (let DataDF = parsed;
          MissingValues = isna_sum DataDF;
          DataDF = map negative_to_nan DataDF
      in (DataDF, MissingValues))"

text \<open>\<open>DataDF.loc[startDate:endDate]\<close>: the rows whose date lies in the range, both ends
  included.\<close>

definition loc_slice :: "frame \<Rightarrow> date \<Rightarrow> date \<Rightarrow> frame" where
  "loc_slice df startDate endDate =
     filter (\<lambda>r. startDate \<le> Date r \<and> Date r \<le> endDate) df"

text \<open>The DataFrame objects alive, each known by its position in the store. \<open>ClipData\<close>
  receives a reference; the slice is a new object, to which the function's local name is
  rebound, and the reference to it is returned with the count.\<close>

type_synonym store = "frame list"

definition ClipData :: "store \<Rightarrow> nat \<Rightarrow> date \<Rightarrow> date \<Rightarrow> (store \<times> nat \<times> nat) option" where
  "ClipData s DataDF startDate endDate =
     (if DataDF < length s then
        (let clipped = loc_slice (s ! DataDF) startDate endDate;
             s' = s @ [clipped];
             DataDF' = length s;
             MissingValues = isna_sum (s' ! DataDF')
         in Some (s', DataDF', MissingValues))
      else None)"

section \<open>Resampling\<close>

text \<open>The two frequencies the program resamples with. \<open>A-SEP\<close> is the year that ends in
  September: a bin closes on September 30 and carries that date as its label. \<open>MS\<close> is
  the calendar month, labelled by its first day. \<open>period\<close> numbers the bins, \<open>label\<close>
  is the label of a bin.\<close>

datatype freq = A_SEP | MS

fun period :: "freq \<Rightarrow> date \<Rightarrow> int" where
  "period A_SEP (y, m, d) = (if m \<le> 9 then y else y + 1)"
| "period MS (y, m, d) = y * 12 + int m - 1"

fun label :: "freq \<Rightarrow> int \<Rightarrow> date" where
  "label A_SEP k = (k, 9, 30)"
| "label MS k = (k div 12, nat (k mod 12) + 1, 1)"

text \<open>The exceptions of Python that the aggregation can raise.\<close>

datatype error = TypeError | KeyError | ValueError

text \<open>\<open>DataDF.resample(f)\<close>. The table of a file without data rows has no dates: its
  index is not a DatetimeIndex, and \<open>resample\<close> raises TypeError. Otherwise the rows are
  taken in the order of their dates (a stable sort, which leaves a sorted table as it is),
  and there is one bin for every period from that of the earliest row to that of the
  latest, also for a period without rows.\<close>

definition resample :: "freq \<Rightarrow> frame \<Rightarrow> error + (date \<times> frame) list" where
  "resample f df =
     (if df = [] then Inl TypeError
      else let obj = sort_key Date df;
               ks = map (\<lambda>r. period f (Date r)) obj
           in Inr (map (\<lambda>k. (label f k, filter (\<lambda>r. period f (Date r) = k) obj))
                     [Min (set ks)..Max (set ks)]))"

text \<open>\<open>g[c]\<close>: the column named \<open>c\<close> of every bin. Discharge and site_no are the numeric
  columns; agency_cd and Quality hold text, on which no kernel computes; any other name
  raises KeyError.\<close>

definition getitem :: "(date \<times> frame) list \<Rightarrow> string \<Rightarrow> error + (date \<times> series) list" where
  "getitem g c =
     (if c = ''Discharge'' then Inr (map (\<lambda>(l, b). (l, map Discharge b)) g)
      else if c = ''site_no''
        then Inr (map (\<lambda>(l, b). (l, map (\<lambda>r. Some (real_of_int (site_no r))) b)) g)
      else if c = ''agency_cd'' \<or> c = ''Quality'' then Inl TypeError
      else Inl KeyError)"

text \<open>A reduction (\<open>mean()\<close>, \<open>min()\<close>, ...) or \<open>apply(f)\<close> on a column of the bins: a series
  of one value per bin, indexed by the labels.\<close>

definition agg :: "(date \<times> series) list \<Rightarrow> (series \<Rightarrow> fval) \<Rightarrow> (date \<times> fval) list" where
  "agg col f = map (\<lambda>(l, q). (l, f q)) col"

text \<open>\<open>g.apply(d)\<close> with a dictionary \<open>d\<close> from column names to functions: a table with one
  column for every entry of the dictionary, under the name of the entry.\<close>

fun apply_dict ::
  "(date \<times> frame) list \<Rightarrow> (string \<times> (series \<Rightarrow> fval)) list \<Rightarrow>
     error + (string \<times> (date \<times> fval) list) list" where
  "apply_dict g [] = Inr []"
| "apply_dict g ((c, f) # d) =
     (case getitem g c of
        Inl e \<Rightarrow> Inl e
      | Inr col \<Rightarrow>
          (case apply_dict g d of
             Inl e \<Rightarrow> Inl e
           | Inr cols \<Rightarrow> Inr ((c, agg col f) # cols)))"

text \<open>The value of the assignment \<open>DF[name] = table\<close>: a table of one column gives that
  column, whatever its name; a table with another number of columns raises ValueError.\<close>

fun setitem_frame :: "(string \<times> (date \<times> fval) list) list \<Rightarrow> error + (date \<times> fval) list" where
  "setitem_frame [(c, s)] = Inr s"
| "setitem_frame _ = Inl ValueError"

text \<open>Arithmetic of two series, and of a series and a number: by label.\<close>

definition reindexed :: "(date \<times> fval) list \<Rightarrow> date \<Rightarrow> fval" where
  "reindexed s l = (case map_of s l of None \<Rightarrow> NaN | Some v \<Rightarrow> v)"

definition series_div :: "(date \<times> fval) list \<Rightarrow> (date \<times> fval) list \<Rightarrow> (date \<times> fval) list" where
  "series_div a b = map (\<lambda>(l, v). (l, fdiv v (reindexed b l))) a"

definition series_mul :: "(date \<times> fval) list \<Rightarrow> real \<Rightarrow> (date \<times> fval) list" where
  "series_mul a c = map (\<lambda>(l, v). (l, fmul v (Fin c))) a"

section \<open>The summary tables\<close>

text \<open>A row of the monthly table has the columns site_no, Mean Flow, Coeff Var, Tqmean and
  R-B Index; a row of the annual table has these and Peak Flow, Median Flow, Skew, 7Q and
  3xMedian. A column assigned from a series takes, in the row of a label, the value of the
  series at that label (\<open>reindexed\<close>).\<close>

record monthly_row =
  site_no_col :: fval
  Mean_Flow :: fval
  Coeff_Var :: fval
  Tqmean :: fval
  RB_Index :: fval

record annual_row = monthly_row +
  Peak_Flow :: fval
  Median_Flow :: fval
  Skew :: fval
  sevenQ :: fval
  exceed3xMedian :: fval

definition GetAnnualStatistics :: "frame \<Rightarrow> error + (date \<times> annual_row) list" where
  "GetAnnualStatistics DataDF =
     (case resample A_SEP DataDF of
        Inl e \<Rightarrow> Inl e
      | Inr WYData \<Rightarrow>
     (case getitem WYData ''Discharge'' of
        Inl e \<Rightarrow> Inl e
      | Inr WYData_Discharge \<Rightarrow>
     (case getitem WYData ''site_no'' of
        Inl e \<Rightarrow> Inl e
      | Inr WYData_site_no \<Rightarrow>
     (let annualIndex = map fst (agg WYData_Discharge Series_mean)
      in Inr (map (\<lambda>l. (l,
           \<lparr> site_no_col = reindexed (agg WYData_site_no Series_min) l,
             Mean_Flow = reindexed (agg WYData_Discharge Series_mean) l,
             Coeff_Var =
               reindexed (series_mul (series_div (agg WYData_Discharge Series_std)
                                                 (agg WYData_Discharge Series_mean)) 100) l,
             Tqmean = reindexed (agg WYData_Discharge (\<lambda>x. CalcTqmean x)) l,
             RB_Index = reindexed (agg WYData_Discharge (\<lambda>x. CalcRBindex x)) l,
             Peak_Flow = reindexed (agg WYData_Discharge Series_max) l,
             Median_Flow = reindexed (agg WYData_Discharge Series_median) l,
             Skew = reindexed (agg WYData_Discharge Series_skew) l,
             sevenQ = reindexed (agg WYData_Discharge (\<lambda>x. Calc7Q x)) l,
             exceed3xMedian =
               reindexed (agg WYData_Discharge
                            (\<lambda>x. Fin (real (CalcExceed3TimesMedian x)))) l \<rparr>))
           annualIndex)))))"

definition GetMonthlyStatistics :: "frame \<Rightarrow> error + (date \<times> monthly_row) list" where
  "GetMonthlyStatistics DataDF =
     (case resample MS DataDF of
        Inl e \<Rightarrow> Inl e
      | Inr MoData \<Rightarrow>
     (case getitem MoData ''Discharge'' of
        Inl e \<Rightarrow> Inl e
      | Inr MoData_Discharge \<Rightarrow>
     (case getitem MoData ''site_no'' of
        Inl e \<Rightarrow> Inl e
      | Inr MoData_site_no \<Rightarrow>
     (case apply_dict MoData [(''Discharge'', \<lambda>x. CalcRBindex x)] of
        Inl e \<Rightarrow> Inl e
      | Inr MoData_applied \<Rightarrow>
     (case setitem_frame MoData_applied of
        Inl e \<Rightarrow> Inl e
      | Inr RB_values \<Rightarrow>
     (let monthlyIndex = map fst (agg MoData_Discharge Series_mean)
      in Inr (map (\<lambda>l. (l,
           \<lparr> site_no_col = reindexed (agg MoData_site_no Series_min) l,
             Mean_Flow = reindexed (agg MoData_Discharge Series_mean) l,
             Coeff_Var =
               reindexed (series_mul (series_div (agg MoData_Discharge Series_std)
                                                 (agg MoData_Discharge Series_mean)) 100) l,
             Tqmean = reindexed (agg MoData_Discharge (\<lambda>x. CalcTqmean x)) l,
             RB_Index = reindexed RB_values l \<rparr>))
           monthlyIndex)))))))"

section \<open>The words of the specification\<close>

text \<open>The water year \<open>y\<close> runs from October 1 of the year before to September 30 of \<open>y\<close>.\<close>

definition in_water_year :: "int \<Rightarrow> date \<Rightarrow> bool" where
  "in_water_year y t \<longleftrightarrow> (y - 1, 10, 1) \<le> t \<and> t \<le> (y, 9, 30)"

text \<open>The metrics of one bucket: every kernel applied to the discharge values of the rows of
  the bucket.\<close>

definition monthly_metrics :: "frame \<Rightarrow> monthly_row" where
  "monthly_metrics b =
     \<lparr> site_no_col = Series_min (map (\<lambda>r. Some (real_of_int (site_no r))) b),
       Mean_Flow = Series_mean (map Discharge b),
       Coeff_Var =
         fmul (fdiv (Series_std (map Discharge b)) (Series_mean (map Discharge b))) (Fin 100),
       Tqmean = CalcTqmean (map Discharge b),
       RB_Index = CalcRBindex (map Discharge b) \<rparr>"

definition annual_metrics :: "frame \<Rightarrow> annual_row" where
  "annual_metrics b =
     \<lparr> site_no_col = Series_min (map (\<lambda>r. Some (real_of_int (site_no r))) b),
       Mean_Flow = Series_mean (map Discharge b),
       Coeff_Var =
         fmul (fdiv (Series_std (map Discharge b)) (Series_mean (map Discharge b))) (Fin 100),
       Tqmean = CalcTqmean (map Discharge b),
       RB_Index = CalcRBindex (map Discharge b),
       Peak_Flow = Series_max (map Discharge b),
       Median_Flow = Series_median (map Discharge b),
       Skew = Series_skew (map Discharge b),
       sevenQ = Calc7Q (map Discharge b),
       exceed3xMedian = Fin (real (CalcExceed3TimesMedian (map Discharge b))) \<rparr>"

section \<open>Example tables\<close>

definition example_obs :: "int \<Rightarrow> nat \<Rightarrow> nat \<Rightarrow> real option \<Rightarrow> obs" where
  "example_obs y m d q =
     \<lparr>agency_cd = ''USGS'', site_no = 3335000, Date = (y, m, d), Discharge = q,
      Quality = ''A''\<rparr>"

text \<open>The float64 nearest to 0.7.\<close>

definition d07 :: real where
  "d07 = 3152519739159347 / 4503599627370496"

text \<open>Half of \<open>2 ^ 1024\<close>, the least power of two beyond float64.\<close>

definition big :: real where
  "big = 2 ^ 1023"

section \<open>Facts about rounding\<close>

lemma pow2_powr: "pow2 k = 2 powr (of_int k)"
  by (simp add: pow2_def powr_int)

lemma pow2_pos: "0 < pow2 k"
  by (simp add: pow2_powr)

lemma pow2_add: "pow2 (j + k) = pow2 j * pow2 k"
  by (simp add: pow2_powr powr_add)

lemma pow2_diff: "pow2 j / pow2 k = pow2 (j - k)"
  by (simp add: pow2_powr powr_diff)

lemma pow2_52: "pow2 52 = 2 ^ 52" and pow2_53: "pow2 53 = 2 ^ 53"
  by (simp_all add: pow2_def)

lemma pow2_mono: "j \<le> k \<Longrightarrow> pow2 j \<le> pow2 k"
  by (simp add: pow2_powr)

lemma exponent_bounds:
  assumes "x \<noteq> 0"
  shows "pow2 \<lfloor>log 2 \<bar>x\<bar>\<rfloor> \<le> \<bar>x\<bar>" and "\<bar>x\<bar> < pow2 (\<lfloor>log 2 \<bar>x\<bar>\<rfloor> + 1)"
proof -
  have "0 < \<bar>x\<bar>" using assms by simp
  then have "2 powr (of_int \<lfloor>log 2 \<bar>x\<bar>\<rfloor>) \<le> \<bar>x\<bar> \<and> \<bar>x\<bar> < 2 powr (of_int (\<lfloor>log 2 \<bar>x\<bar>\<rfloor> + 1))"
    using floor_log_eq_powr_iff [of "\<bar>x\<bar>" 2 "\<lfloor>log 2 \<bar>x\<bar>\<rfloor>"] by simp
  then show "pow2 \<lfloor>log 2 \<bar>x\<bar>\<rfloor> \<le> \<bar>x\<bar>" and "\<bar>x\<bar> < pow2 (\<lfloor>log 2 \<bar>x\<bar>\<rfloor> + 1)"
    by (simp_all add: pow2_powr)
qed

lemma exponent_eq:
  assumes "pow2 e \<le> \<bar>x\<bar>" and "\<bar>x\<bar> < pow2 (e + 1)"
  shows "\<lfloor>log 2 \<bar>x\<bar>\<rfloor> = e"
proof -
  have "0 < \<bar>x\<bar>" using assms(1) pow2_pos [of e] by linarith
  then show ?thesis
    using floor_log_eq_powr_iff [of "\<bar>x\<bar>" 2 e] assms by (simp add: pow2_powr)
qed

lemma round_even_ge: "of_int n \<le> y \<Longrightarrow> n \<le> round_even y"
proof -
  assume "of_int n \<le> y"
  then have "n \<le> \<lfloor>y\<rfloor>" by (simp add: le_floor_iff)
  then show ?thesis by (auto simp: round_even_def Let_def)
qed

lemma round_even_le: "y \<le> of_int n \<Longrightarrow> round_even y \<le> n"
proof -
  assume a: "y \<le> of_int n"
  then have f: "\<lfloor>y\<rfloor> \<le> n" by (simp add: floor_le_iff) 
  show ?thesis
  proof (cases "\<lfloor>y\<rfloor> = n")
    case True
    then have "y = of_int n" using a by (metis of_int_floor_le order_antisym)
    then show ?thesis by (simp add: round_even_def)
  next
    case False
    then have "\<lfloor>y\<rfloor> + 1 \<le> n" using f by simp
    then show ?thesis using f by (auto simp: round_even_def Let_def)
  qed
qed

lemma fl_0: "fl 0 = Fin 0"
  by (simp add: fl_def)

lemma fl_eval:
  assumes "pow2 e \<le> \<bar>x\<bar>" and "\<bar>x\<bar> < pow2 (e + 1)"
  shows "fl x =
     (if pow2 1024 \<le> \<bar>of_int (round_even (x / pow2 (e - 52))) * pow2 (e - 52)\<bar>
      then (if 0 < x then PInf else NInf)
      else Fin (of_int (round_even (x / pow2 (e - 52))) * pow2 (e - 52)))"
proof -
  have "x \<noteq> 0" using assms(1) pow2_pos [of e] by auto
  then show ?thesis by (simp add: fl_def Let_def exponent_eq [OF assms])
qed

lemma fl_pos:
  assumes "0 < x"
  shows "fl x = PInf \<or> (\<exists>r. fl x = Fin r \<and> 0 < r)"
proof -
  let ?e = "\<lfloor>log 2 \<bar>x\<bar>\<rfloor>"
  let ?u = "pow2 (?e - 52)"
  have x0: "x \<noteq> 0" using assms by simp
  have "pow2 ?e \<le> x" using exponent_bounds(1) [OF x0] assms by simp
  then have "pow2 ?e / ?u \<le> x / ?u" using pow2_pos [of "?e - 52"] by (simp add: divide_right_mono)
  moreover have "pow2 ?e / ?u = 2 ^ 52"
    by (simp only: pow2_diff flip: pow2_52) simp
  ultimately have "of_int (2 ^ 52) \<le> x / ?u" by simp
  then have "2 ^ 52 \<le> round_even (x / ?u)" by (rule round_even_ge)
  moreover have "(0::int) < 2 ^ 52" by simp
  ultimately have "0 < round_even (x / ?u)" by (rule less_le_trans [rotated])
  then have "0 < of_int (round_even (x / ?u)) * ?u" using pow2_pos [of "?e - 52"] by simp
  then show ?thesis using assms x0 by (auto simp: fl_def Let_def)
qed

lemma fl_unit:
  assumes "0 < x" and "x \<le> 1"
  shows "\<exists>r. fl x = Fin r \<and> 0 < r \<and> r \<le> 1"
proof -
  let ?e = "\<lfloor>log 2 \<bar>x\<bar>\<rfloor>"
  let ?u = "pow2 (?e - 52)"
  let ?r = "of_int (round_even (x / ?u)) * ?u"
  have x0: "x \<noteq> 0" using assms by simp
  have lo: "pow2 ?e \<le> x" and hi: "x < pow2 (?e + 1)"
    using exponent_bounds [OF x0] assms by simp_all
  have u: "0 < ?u" by (rule pow2_pos)
  have e0: "?e \<le> 0"
  proof (rule ccontr)
    assume "\<not> ?e \<le> 0"
    then have "pow2 1 \<le> pow2 ?e" by (intro pow2_mono) simp
    then show False using lo assms(2) by (simp add: pow2_def)
  qed
  have r1: "?r \<le> 1"
  proof (cases "?e = 0")
    case True
    then have "x = 1" using lo assms(2) by (simp add: pow2_def)
    then have "x / ?u = of_int (2 ^ 52)" using True by (simp add: pow2_def)
    then have "round_even (x / ?u) \<le> 2 ^ 52" by (intro round_even_le) simp
    then have "?r \<le> of_int (2 ^ 52) * ?u" using u by (simp add: mult_right_mono del: of_int_power of_int_numeral)
    then show ?thesis using True by (simp add: pow2_def)
  next
    case False
    then have e1: "?e + 1 \<le> 0" using e0 by linarith
    have "x / ?u \<le> pow2 (?e + 1) / ?u" using hi u by (simp add: divide_right_mono)
    moreover have "pow2 (?e + 1) / ?u = 2 ^ 53"
      by (simp only: pow2_diff flip: pow2_53) simp
    ultimately have "x / ?u \<le> of_int (2 ^ 53)" by simp
    then have "round_even (x / ?u) \<le> 2 ^ 53" by (rule round_even_le)
    then have "?r \<le> of_int (2 ^ 53) * ?u" using u by (simp add: mult_right_mono del: of_int_power of_int_numeral)
    also have "of_int (2 ^ 53) * ?u = pow2 (?e + 1)"
      using pow2_add [of 53 "?e - 52"] by (simp add: pow2_53 add.commute)
    also have "\<dots> \<le> pow2 0" using e1 by (rule pow2_mono)
    finally show ?thesis by (simp add: pow2_def)
  qed
  have "0 < ?r"
  proof -
    have "pow2 ?e / ?u \<le> x / ?u" using lo u by (simp add: divide_right_mono)
    moreover have "pow2 ?e / ?u = 2 ^ 52"
      by (simp only: pow2_diff flip: pow2_52) simp
    ultimately have "of_int (2 ^ 52) \<le> x / ?u" by simp
    then have "2 ^ 52 \<le> round_even (x / ?u)" by (rule round_even_ge)
    moreover have "(0::int) < 2 ^ 52" by simp
    ultimately have "0 < round_even (x / ?u)" by (rule less_le_trans [rotated])
    then show ?thesis using u by simp
  qed
  moreover have "\<not> pow2 1024 \<le> \<bar>?r\<bar>"
  proof -
    have "pow2 0 \<le> pow2 1024" by (intro pow2_mono) simp
    moreover have "1 < pow2 1024" by (simp add: pow2_def)
    ultimately show ?thesis using r1 \<open>0 < ?r\<close> by linarith
  qed
  ultimately have "fl x = Fin ?r" using x0 by (simp add: fl_def Let_def)
  then show ?thesis using r1 \<open>0 < ?r\<close> by blast
qed

lemma fl_finite:
  assumes "pow2 e \<le> \<bar>x\<bar>" and "\<bar>x\<bar> < pow2 (e + 1)"
    and "round_even (x / pow2 (e - 52)) = m"
    and "\<bar>of_int m * pow2 (e - 52)\<bar> < pow2 1024"
  shows "fl x = Fin (of_int m * pow2 (e - 52))"
  using assms(3,4) by (simp add: fl_eval [OF assms(1,2)])

lemma fl_overflow:
  assumes "pow2 e \<le> x" and "x < pow2 (e + 1)"
    and "round_even (x / pow2 (e - 52)) = m"
    and "pow2 1024 \<le> \<bar>of_int m * pow2 (e - 52)\<bar>"
  shows "fl x = PInf"
proof -
  have "0 < x" using assms(1) pow2_pos [of e] by linarith
  then have a: "pow2 e \<le> \<bar>x\<bar>" "\<bar>x\<bar> < pow2 (e + 1)" using assms(1,2) by simp_all
  show ?thesis using assms(3,4) \<open>0 < x\<close> by (simp add: fl_eval [OF a])
qed

lemma fl_nonneg: "0 \<le> x \<Longrightarrow> fl x = PInf \<or> (\<exists>r. fl x = Fin r \<and> 0 \<le> r)"
  using fl_pos [of x] fl_0 by (cases "x = 0") (auto intro: less_imp_le)

lemma fl_eq_0_iff: "0 \<le> x \<Longrightarrow> fl x = Fin 0 \<longleftrightarrow> x = 0"
  using fl_pos [of x] fl_0 by (cases "x = 0") auto

lemma fl_1: "fl 1 = Fin 1"
proof -
  have "fl 1 = Fin (of_int (2 ^ 52) * pow2 (0 - 52))"
    by (rule fl_finite) (simp_all add: pow2_def round_even_def)
  then show ?thesis by (simp add: pow2_def)
qed

lemma fl_3: "fl 3 = Fin 3"
proof -
  have "fl 3 = Fin (of_int (3 * 2 ^ 51) * pow2 (1 - 52))"
    by (rule fl_finite) (simp_all add: pow2_def round_even_def)
  then show ?thesis by (simp add: pow2_def)
qed

lemma fl_big: "fl big = Fin big"
proof -
  have "fl big = Fin (of_int (2 ^ 52) * pow2 (1023 - 52))"
    by (rule fl_finite) (simp_all add: big_def pow2_def round_even_def)
  then show ?thesis by (simp add: big_def pow2_def)
qed

lemma fl_big_2: "fl (2 * big) = PInf"
  by (rule fl_overflow [of 1024 _ "2 ^ 52"]) (simp_all add: big_def pow2_def round_even_def)

lemma fl_d07: "fl d07 = Fin d07"
proof -
  have "fl d07 = Fin (of_int 6305039478318694 * pow2 (- 1 - 52))"
    by (rule fl_finite) (simp_all add: d07_def pow2_def round_even_def)
  then show ?thesis by (simp add: d07_def pow2_def)
qed

lemma fl_d07_2: "fl (2 * d07) = Fin (2 * d07)"
proof -
  have "fl (2 * d07) = Fin (of_int 6305039478318694 * pow2 (0 - 52))"
    by (rule fl_finite) (simp_all add: d07_def pow2_def round_even_def)
  then show ?thesis by (simp add: d07_def pow2_def)
qed

lemma fl_d07_3: "fl (3 * d07) = Fin (4728779608739020 / 2 ^ 51)"
proof -
  have "fl (3 * d07) = Fin (of_int 4728779608739020 * pow2 (1 - 52))"
    by (rule fl_finite) (simp_all add: d07_def pow2_def round_even_def)
  then show ?thesis by (simp add: pow2_def)
qed

lemma fl_d07_mean: "fl (4728779608739020 / 2 ^ 51 / 3) = Fin (6305039478318693 / 2 ^ 53)"
proof -
  have "fl (4728779608739020 / 2 ^ 51 / 3) = Fin (of_int 6305039478318693 * pow2 (- 1 - 52))"
    by (rule fl_finite) (simp_all add: pow2_def round_even_def)
  then show ?thesis by (simp add: pow2_def)
qed

section \<open>Facts about the series primitives\<close>

lemma valid_no_missing: "None \<notin> set qs \<Longrightarrow> valid qs = map the qs"
  by (induction qs rule: valid.induct) auto

lemma length_valid_le: "length (valid qs) \<le> length qs"
  by (induction qs rule: valid.induct) auto

lemma set_valid: "set (valid qs) = {v. Some v \<in> set qs}"
  by (induction qs rule: valid.induct) auto

lemma length_valid_eq_iff: "length (valid qs) = length qs \<longleftrightarrow> None \<notin> set qs"
proof (induction qs rule: valid.induct)
  case (2 qs)
  show ?case using length_valid_le [of qs] by simp
qed auto

lemma valid_all_None: "(\<forall>q \<in> set qs. q = None) \<Longrightarrow> valid qs = []"
  by (induction qs rule: valid.induct) auto

lemma valid_append: "valid (xs @ ys) = valid xs @ valid ys"
  by (induction xs rule: valid.induct) auto

lemma valid_replicate_Some: "valid (replicate n (Some c)) = replicate n c"
  by (induction n) auto

lemma sum_list_nonneg_eq_0:
  "(\<forall>x \<in> set xs. (0::real) \<le> x) \<Longrightarrow> sum_list xs = 0 \<longleftrightarrow> (\<forall>x \<in> set xs. x = 0)"
  by (induction xs) (auto simp: add_nonneg_eq_0_iff sum_list_nonneg)

lemma all_same_iff: "(\<forall>x \<in> set xs. x = c) \<longleftrightarrow> xs = replicate (length xs) c"
  by (induction xs) auto

lemma fadd_nonneg:
  assumes "a = PInf \<or> (\<exists>r. a = Fin r \<and> 0 \<le> r)" and "0 \<le> v"
  shows "fadd a v = PInf \<or> (\<exists>r. fadd a v = Fin r \<and> 0 \<le> r)"
proof (cases a)
  case (Fin r)
  then have "0 \<le> r + v" using assms by simp
  then show ?thesis using Fin fl_nonneg [of "r + v"] by simp
qed (use assms in auto)

lemma fadd_zero_iff:
  assumes "a = PInf \<or> (\<exists>r. a = Fin r \<and> 0 \<le> r)" and "0 \<le> v"
  shows "fadd a v = Fin 0 \<longleftrightarrow> a = Fin 0 \<and> v = 0"
proof (cases a)
  case (Fin r)
  then have r: "0 \<le> r" using assms(1) by simp
  then have "fl (r + v) = Fin 0 \<longleftrightarrow> r + v = 0" using assms(2) by (intro fl_eq_0_iff) simp
  also have "\<dots> \<longleftrightarrow> r = 0 \<and> v = 0" using r assms(2) by (simp add: add_nonneg_eq_0_iff)
  finally show ?thesis using Fin by simp
qed (use assms in auto)

lemma fold_fadd_nonneg:
  assumes "\<forall>v \<in> set vs. 0 \<le> v" and "a = PInf \<or> (\<exists>r. a = Fin r \<and> 0 \<le> r)"
  shows "fold (\<lambda>v total. fadd total v) vs a = PInf \<or>
         (\<exists>r. fold (\<lambda>v total. fadd total v) vs a = Fin r \<and> 0 \<le> r)"
  using assms
proof (induction vs arbitrary: a)
  case Nil
  then show ?case by simp
next
  case (Cons v vs)
  have "fadd a v = PInf \<or> (\<exists>r. fadd a v = Fin r \<and> 0 \<le> r)"
    using Cons.prems by (intro fadd_nonneg) simp_all
  then show ?case using Cons.IH [of "fadd a v"] Cons.prems(1) by simp
qed

lemma fold_fadd_zero_iff:
  assumes "\<forall>v \<in> set vs. 0 \<le> v" and "a = PInf \<or> (\<exists>r. a = Fin r \<and> 0 \<le> r)"
  shows "fold (\<lambda>v total. fadd total v) vs a = Fin 0 \<longleftrightarrow> a = Fin 0 \<and> (\<forall>v \<in> set vs. v = 0)"
  using assms
proof (induction vs arbitrary: a)
  case Nil
  then show ?case by simp
next
  case (Cons v vs)
  have n: "fadd a v = PInf \<or> (\<exists>r. fadd a v = Fin r \<and> 0 \<le> r)"
    using Cons.prems by (intro fadd_nonneg) simp_all
  have z: "fadd a v = Fin 0 \<longleftrightarrow> a = Fin 0 \<and> v = 0"
    using Cons.prems by (intro fadd_zero_iff) simp_all
  have "fold (\<lambda>v total. fadd total v) vs (fadd a v) = Fin 0 \<longleftrightarrow>
          fadd a v = Fin 0 \<and> (\<forall>v \<in> set vs. v = 0)"
    using Cons.prems(1) n by (intro Cons.IH) simp_all
  then show ?case using z by auto
qed

lemma Series_sum_nonneg:
  "\<forall>x \<in> set (valid qs). 0 \<le> x \<Longrightarrow>
     Series_sum qs = PInf \<or> (\<exists>r. Series_sum qs = Fin r \<and> 0 \<le> r)"
  unfolding Series_sum_def by (rule fold_fadd_nonneg) simp_all

lemma Series_sum_zero_iff:
  "\<forall>x \<in> set (valid qs). 0 \<le> x \<Longrightarrow>
     Series_sum qs = Fin 0 \<longleftrightarrow> (\<forall>x \<in> set (valid qs). x = 0)"
  unfolding Series_sum_def using fold_fadd_zero_iff [of "valid qs" "Fin 0"] by simp

lemma Series_sum_no_valid: "valid qs = [] \<Longrightarrow> Series_sum qs = Fin 0"
  by (simp add: Series_sum_def)

section \<open>Tqmean\<close>

lemma count_gt_le: "count_gt qs m \<le> length qs"
  by (simp add: count_gt_def)

lemma count_gt_zero_iff:
  "count_gt qs m = 0 \<longleftrightarrow> (\<forall>v. Some v \<in> set qs \<longrightarrow> \<not> fgt v m)"
  by (auto simp: count_gt_def filter_empty_conv split: option.splits)

text \<open>
  Claim C3, as amended. For a series that is not empty and has no missing entry,
  \<open>CalcTqmean\<close> returns a finite value between 0 and 1, and the value is 0 exactly when no
  entry is greater than the mean that \<open>Qvalues.mean()\<close> computes in float64.
\<close>

theorem CalcTqmean_unit_interval:
  assumes "Qvalues \<noteq> []" and "None \<notin> set Qvalues"
  shows "\<exists>t. CalcTqmean Qvalues = Fin t \<and> 0 \<le> t \<and> t \<le> 1 \<and>
           (t = 0 \<longleftrightarrow> (\<forall>v. Some v \<in> set Qvalues \<longrightarrow> \<not> fgt v (Series_mean Qvalues)))"
proof -
  let ?c = "count_gt Qvalues (Series_mean Qvalues)"
  let ?n = "length Qvalues"
  have n: "0 < ?n" using assms(1) by simp
  have t: "CalcTqmean Qvalues = fl (real ?c / real ?n)"
    using n by (simp add: CalcTqmean_def)
  show ?thesis
  proof (cases "?c = 0")
    case True
    then have "CalcTqmean Qvalues = Fin 0" using t by (simp add: fl_0)
    moreover have "\<forall>v. Some v \<in> set Qvalues \<longrightarrow> \<not> fgt v (Series_mean Qvalues)"
      using True by (simp add: count_gt_zero_iff)
    ultimately show ?thesis by simp
  next
    case False
    then have "0 < real ?c / real ?n" using n by simp
    moreover have "real ?c / real ?n \<le> 1" using count_gt_le [of Qvalues "Series_mean Qvalues"] n by simp
    ultimately obtain r where r: "fl (real ?c / real ?n) = Fin r" "0 < r" "r \<le> 1"
      using fl_unit by blast
    moreover have "\<not> (\<forall>v. Some v \<in> set Qvalues \<longrightarrow> \<not> fgt v (Series_mean Qvalues))"
      using False by (simp add: count_gt_zero_iff)
    ultimately show ?thesis using t by auto
  qed
qed

theorem CalcTqmean_unit_interval_witness:
  "\<exists>t. CalcTqmean [Some 1, Some 2, Some 3, Some 6] = Fin t \<and> 0 \<le> t \<and> t \<le> 1 \<and>
       (t = 0 \<longleftrightarrow>
          (\<forall>v. Some v \<in> set [Some 1, Some 2, Some 3, Some 6] \<longrightarrow>
             \<not> fgt v (Series_mean [Some 1, Some 2, Some 3, Some 6])))"
  by (rule CalcTqmean_unit_interval) simp_all

lemma Series_mean_d07: "Series_mean [Some d07, Some d07, Some d07] = Fin (6305039478318693 / 2 ^ 53)"
proof -
  have "Series_sum [Some d07, Some d07, Some d07] = fadd (fadd (fadd (Fin 0) d07) d07) d07"
    by (simp only: Series_sum_def valid.simps fold_simps)
  also have "fadd (Fin 0) d07 = Fin d07" by (simp add: fl_d07)
  also have "fadd (Fin d07) d07 = Fin (2 * d07)" using fl_d07_2 by simp
  also have "fadd (Fin (2 * d07)) d07 = Fin (4728779608739020 / 2 ^ 51)" using fl_d07_3 by simp
  finally have s: "Series_sum [Some d07, Some d07, Some d07] = Fin (4728779608739020 / 2 ^ 51)" .
  have m: "fdiv (Fin (4728779608739020 / 2 ^ 51)) (Fin 3) = Fin (6305039478318693 / 2 ^ 53)"
    using fl_d07_mean by simp
  have "Series_mean [Some d07, Some d07, Some d07] =
      fdiv (Series_sum [Some d07, Some d07, Some d07]) (Fin 3)"
    by (simp add: Series_mean_def)
  then show ?thesis by (simp only: s m)
qed

text \<open>
  Claim C3 as stated fails on three readings of 0.7: none is greater than their mean, and
  the float64 mean is 0.6999999999999998, below each of them, so that the result is 1.
\<close>

theorem CalcTqmean_exact_mean_counterexample:
  "CalcTqmean [Some d07, Some d07, Some d07] = Fin 1 \<and>
   \<not> sum_list (map the [Some d07, Some d07, Some d07]) /
       real (length [Some d07, Some d07, Some d07]) < d07"
proof -
  have "6305039478318693 / 2 ^ 53 < d07" by (simp add: d07_def)
  then have "count_gt [Some d07, Some d07, Some d07] (Series_mean [Some d07, Some d07, Some d07]) = 3"
    by (simp add: count_gt_def Series_mean_d07)
  then have "CalcTqmean [Some d07, Some d07, Some d07] = Fin 1"
    by (simp add: CalcTqmean_def fl_1)
  then show ?thesis by simp
qed

section \<open>The R-B Index\<close>

lemma valid_abs_nonneg: "\<forall>x \<in> set (valid (Series_abs qs)). 0 \<le> x"
  by (induction qs rule: valid.induct) (auto simp: Series_abs_def)

lemma diff_from_const:
  "None \<notin> set qs \<Longrightarrow>
     (\<forall>x \<in> set (valid (Series_abs (diff_from (Some a) qs))). x = 0) \<longleftrightarrow>
       (\<forall>q \<in> set qs. q = Some a)"
proof (induction qs arbitrary: a)
  case Nil
  then show ?case by (simp add: Series_abs_def)
next
  case (Cons q qs)
  then obtain b where q: "q = Some b" by (cases q) auto
  have ih: "(\<forall>x \<in> set (valid (Series_abs (diff_from (Some b) qs))). x = 0) \<longleftrightarrow>
      (\<forall>q \<in> set qs. q = Some b)"
    using Cons by simp
  have "valid (Series_abs (diff_from (Some a) (q # qs))) =
          \<bar>b - a\<bar> # valid (Series_abs (diff_from (Some b) qs))"
    by (simp add: q Series_abs_def)
  then show ?case using ih q by auto
qed

lemma pathlength_zero_iff:
  assumes "None \<notin> set qs"
  shows "Series_sum (Series_abs (Series_diff qs)) = Fin 0 \<longleftrightarrow>
           (\<exists>c. qs = replicate (length qs) (Some c))"
proof -
  have "Series_sum (Series_abs (Series_diff qs)) = Fin 0 \<longleftrightarrow>
          (\<forall>x \<in> set (valid (Series_abs (Series_diff qs))). x = 0)"
    using valid_abs_nonneg by (rule Series_sum_zero_iff)
  also have "\<dots> \<longleftrightarrow> (\<exists>c. qs = replicate (length qs) (Some c))"
  proof (cases qs)
    case Nil
    then show ?thesis by (simp add: Series_abs_def)
  next
    case (Cons q qs')
    then obtain a where q: "q = Some a" using assms by (cases q) auto
    have "valid (Series_abs (Series_diff qs)) = valid (Series_abs (diff_from (Some a) qs'))"
      by (simp add: Cons q Series_abs_def)
    then have "(\<forall>x \<in> set (valid (Series_abs (Series_diff qs))). x = 0) \<longleftrightarrow>
        (\<forall>x \<in> set qs'. x = Some a)"
      using assms Cons diff_from_const [of qs' a] by simp
    also have "\<dots> \<longleftrightarrow> (\<exists>c. qs = replicate (length qs) (Some c))"
      using all_same_iff [of qs' "Some a"] by (auto simp: Cons q)
    finally show ?thesis .
  qed
  finally show ?thesis .
qed

lemma pathlength_nonneg:
  "Series_sum (Series_abs qs) = PInf \<or> (\<exists>r. Series_sum (Series_abs qs) = Fin r \<and> 0 \<le> r)"
  using valid_abs_nonneg by (rule Series_sum_nonneg)

text \<open>
  Claim C4, as amended. For a series of readings that are non-negative or missing, whose
  float64 total is finite and positive, \<open>CalcRBindex\<close> returns a value that is at least 0
  (it may be infinite); when no reading is missing, the value is 0 exactly when the series
  is constant.
\<close>

theorem CalcRBindex_nonneg:
  assumes "\<forall>q \<in> set Qvalues. q = None \<or> (\<exists>v. q = Some v \<and> 0 \<le> v)"
    and "Series_sum Qvalues = Fin t" and "0 < t"
  shows "(CalcRBindex Qvalues = PInf \<or> (\<exists>r. CalcRBindex Qvalues = Fin r \<and> 0 \<le> r)) \<and>
         (None \<notin> set Qvalues \<longrightarrow>
            (CalcRBindex Qvalues = Fin 0 \<longleftrightarrow>
               (\<exists>c. Qvalues = replicate (length Qvalues) (Some c))))"
proof -
  let ?p = "Series_sum (Series_abs (Series_diff Qvalues))"
  have r: "CalcRBindex Qvalues = fdiv ?p (Fin t)"
    by (simp add: CalcRBindex_def assms(2))
  have c: "(CalcRBindex Qvalues = PInf \<or> (\<exists>r. CalcRBindex Qvalues = Fin r \<and> 0 \<le> r)) \<and>
           (CalcRBindex Qvalues = Fin 0 \<longleftrightarrow> ?p = Fin 0)"
  proof (cases "?p = PInf")
    case True
    then show ?thesis using r assms(3) by simp
  next
    case False
    then obtain a where a: "?p = Fin a" "0 \<le> a"
      using pathlength_nonneg [of "Series_diff Qvalues"] by blast
    then have q: "CalcRBindex Qvalues = fl (a / t)" using r assms(3) by simp
    have n: "0 \<le> a / t" using a(2) assms(3) by simp
    have "fl (a / t) = Fin 0 \<longleftrightarrow> a / t = 0" using n by (rule fl_eq_0_iff)
    also have "\<dots> \<longleftrightarrow> a = 0" using assms(3) by simp
    finally show ?thesis using q a(1) fl_nonneg [OF n] by simp
  qed
  then show ?thesis using pathlength_zero_iff [of Qvalues] by simp
qed

lemma Series_sum_1_2: "Series_sum [Some 1, Some 2] = Fin 3"
proof -
  have "Series_sum [Some 1, Some 2] = fadd (fadd (Fin 0) 1) 2"
    by (simp only: Series_sum_def valid.simps fold_simps)
  also have "fadd (Fin 0) 1 = Fin 1" by (simp add: fl_1)
  also have "fadd (Fin 1) 2 = Fin 3" by (simp add: fl_3)
  finally show ?thesis .
qed

theorem CalcRBindex_nonneg_witness:
  "(CalcRBindex [Some 1, Some 2] = PInf \<or> (\<exists>r. CalcRBindex [Some 1, Some 2] = Fin r \<and> 0 \<le> r)) \<and>
   (CalcRBindex [Some 1, Some 2] = Fin 0 \<longleftrightarrow>
      (\<exists>c. [Some 1, Some (2::real)] = replicate (length [Some 1, Some (2::real)]) (Some c)))"
proof -
  have h: "\<forall>q \<in> set [Some 1, Some (2::real)]. q = None \<or> (\<exists>v. q = Some v \<and> 0 \<le> v)"
    by simp
  have z: "(0::real) < 3" by simp
  show ?thesis using CalcRBindex_nonneg [OF h Series_sum_1_2 z] by simp
qed

text \<open>
  Claim C4 as stated fails in three ways. The constant series of zeros gives NaN, neither
  0 nor at least 0. A series with a missing reading between two different readings has no
  difference to sum, and gives 0 though it is not constant. A series whose total passes the
  largest float64 has an infinite total, and gives 0 though it is not constant.
\<close>

theorem CalcRBindex_zeros_counterexample:
  "CalcRBindex [Some 0, Some 0] = NaN \<and>
   CalcRBindex [Some 1, None, Some 2] = Fin 0 \<and>
   CalcRBindex [Some big, Some big, Some 0] = Fin 0"
proof -
  have a: "CalcRBindex [Some 0, Some 0] = NaN"
    by (simp add: CalcRBindex_def Series_sum_def Series_abs_def fl_0)
  have "Series_sum [Some 1, None, Some 2] = fadd (fadd (Fin 0) 1) 2"
    by (simp only: Series_sum_def valid.simps fold_simps)
  also have "fadd (Fin 0) 1 = Fin 1" by (simp add: fl_1)
  also have "fadd (Fin 1) 2 = Fin 3" by (simp add: fl_3)
  finally have s: "Series_sum [Some 1, None, Some 2] = Fin 3" .
  have "Series_sum (Series_abs (Series_diff [Some 1, None, Some 2])) = Fin 0"
    by (simp add: Series_sum_def Series_abs_def)
  then have b: "CalcRBindex [Some 1, None, Some 2] = Fin 0"
    by (simp add: CalcRBindex_def s fl_0)
  have "Series_sum [Some big, Some big, Some 0] = fadd (fadd (fadd (Fin 0) big) big) 0"
    by (simp only: Series_sum_def valid.simps fold_simps)
  also have "fadd (Fin 0) big = Fin big" by (simp add: fl_big)
  also have "fadd (Fin big) big = PInf" using fl_big_2 by simp
  also have "fadd PInf 0 = PInf" by simp
  finally have t: "Series_sum [Some big, Some big, Some 0] = PInf" .
  have "valid (Series_abs (Series_diff [Some big, Some big, Some 0])) = [0, big]"
    by (simp add: Series_abs_def big_def)
  then have "Series_sum (Series_abs (Series_diff [Some big, Some big, Some 0])) =
      fadd (fadd (Fin 0) 0) big"
    by (simp only: Series_sum_def fold_simps)
  also have "fadd (Fin 0) 0 = Fin 0" by (simp add: fl_0)
  also have "fadd (Fin 0) big = Fin big" by (simp add: fl_big)
  finally have "CalcRBindex [Some big, Some big, Some 0] = fdiv (Fin big) PInf"
    by (simp only: CalcRBindex_def Let_def t)
  then have c: "CalcRBindex [Some big, Some big, Some 0] = Fin 0" by simp
  show ?thesis using a b c by simp
qed

lemma diff_from_zero:
  "p = None \<or> p = Some 0 \<Longrightarrow> \<forall>q \<in> set qs. q = None \<or> q = Some 0 \<Longrightarrow>
     \<forall>d \<in> set (diff_from p qs). d = None \<or> d = Some 0"
proof (induction qs arbitrary: p)
  case Nil
  then show ?case by simp
next
  case (Cons q qs)
  have "fsub q p = None \<or> fsub q p = Some 0"
    using Cons.prems by (cases q; cases p) auto
  moreover have "\<forall>d \<in> set (diff_from q qs). d = None \<or> d = Some 0"
    using Cons.prems by (intro Cons.IH) auto
  ultimately show ?case by simp
qed

lemma Series_diff_zero:
  "\<forall>q \<in> set qs. q = None \<or> q = Some 0 \<Longrightarrow>
     \<forall>d \<in> set (Series_diff qs). d = None \<or> d = Some 0"
  using diff_from_zero by (cases qs) auto

lemma valid_abs_zero:
  "\<forall>q \<in> set qs. q = None \<or> q = Some 0 \<Longrightarrow> \<forall>x \<in> set (valid (Series_abs qs)). x = 0"
  by (induction qs rule: valid.induct) (auto simp: Series_abs_def)

lemma pathlength_zero:
  assumes "\<forall>q \<in> set qs. q = None \<or> q = Some 0"
  shows "Series_sum (Series_abs (Series_diff qs)) = Fin 0"
proof -
  have "\<forall>x \<in> set (valid (Series_abs (Series_diff qs))). x = 0"
    using Series_diff_zero [OF assms] by (rule valid_abs_zero)
  then show ?thesis using Series_sum_zero_iff [OF valid_abs_nonneg] by blast
qed

text \<open>
  Claim C7. For a series of readings that are non-negative or missing, as every series of
  the table is after \<open>ReadData\<close>, a total of zero makes \<open>CalcRBindex\<close> return NaN. The
  division is numpy's, which has no exception branch.
\<close>

theorem CalcRBindex_zero_total:
  assumes "\<forall>q \<in> set Qvalues. q = None \<or> (\<exists>v. q = Some v \<and> 0 \<le> v)"
    and "Series_sum Qvalues = Fin 0"
  shows "CalcRBindex Qvalues = NaN"
proof -
  have n: "\<forall>x \<in> set (valid Qvalues). 0 \<le> x"
    using assms(1) by (auto simp: set_valid)
  then have "\<forall>x \<in> set (valid Qvalues). x = 0"
    using assms(2) Series_sum_zero_iff [OF n] by blast
  then have z: "\<forall>q \<in> set Qvalues. q = None \<or> q = Some 0"
    by (metis (mono_tags, lifting) mem_Collect_eq not_None_eq set_valid)
  have "Series_sum (Series_abs (Series_diff Qvalues)) = Fin 0"
    using z by (rule pathlength_zero)
  then show ?thesis
    using assms(2) by (simp add: CalcRBindex_def)
qed

theorem CalcRBindex_zero_total_witness:
  "CalcRBindex [Some 0, None, Some 0] = NaN"
  by (rule CalcRBindex_zero_total) (simp_all add: Series_sum_def fl_0)

section \<open>The seven-day low flow\<close>

lemma window_length: "length (window w qs i) \<le> min w (length qs)"
  by (auto simp: window_def)

lemma window_mean_short: "length win < w \<Longrightarrow> window_mean w win = None"
  using length_valid_le [of win] by (simp add: window_mean_def)

lemma Series_min_all_None: "(\<forall>q \<in> set qs. q = None) \<Longrightarrow> Series_min qs = NaN"
  by (simp add: Series_min_def valid_all_None)

lemma Calc7Q_short: "length qs < 7 \<Longrightarrow> Calc7Q qs = NaN"
proof -
  assume s: "length qs < 7"
  have "\<forall>q \<in> set (rolling_mean 7 qs). q = None"
  proof -
    have "window_mean 7 (window 7 qs i) = None" for i
      using window_length [of 7 qs i] s by (intro window_mean_short) simp
    then show ?thesis by (simp add: rolling_mean_def)
  qed
  then show ?thesis unfolding Calc7Q_def by (rule Series_min_all_None)
qed

lemma window_replicate:
  "i < n \<Longrightarrow> window w (replicate n x) i = replicate (min w (i + 1)) x"
proof -
  assume "i < n"
  then have "min (i + 1) n - (i + 1 - w) = min w (i + 1)" by auto
  then show ?thesis by (simp only: window_def take_replicate drop_replicate)
qed

lemma window_mean_replicate:
  assumes "0 < w"
  shows "window_mean w (replicate k (Some c)) = (if w \<le> k then Some c else None)"
proof (cases "w \<le> k")
  case True
  then have k: "0 < k" using assms by simp
  then have "real k * c / real k = c" by simp
  then show ?thesis
    using True k by (simp add: window_mean_def valid_replicate_Some sum_list_replicate)
next
  case False
  then show ?thesis by (simp add: window_mean_def valid_replicate_Some)
qed

lemma rolling_mean_replicate:
  assumes "0 < w"
  shows "rolling_mean w (replicate n (Some c)) =
     map (\<lambda>i. if w \<le> i + 1 then Some c else None) [0..<n]"
proof -
  have "window_mean w (window w (replicate n (Some c)) i) =
          (if w \<le> i + 1 then Some c else None)" if "i < n" for i
    using that by (simp add: window_replicate window_mean_replicate [OF assms] min_def)
  then show ?thesis by (simp add: rolling_mean_def)
qed

lemma fold_min_replicate: "(min (c::real) ^^ k) c = c"
  by (induction k) auto

lemma valid_map_upt_const:
  "0 < w \<Longrightarrow> valid (map (\<lambda>i. if w \<le> i + 1 then Some c else None) [0..<n]) = replicate (n + 1 - w) c"
proof (induction n)
  case 0
  then show ?case by simp
next
  case (Suc n)
  show ?case
  proof (cases "w \<le> Suc n")
    case True
    then have "Suc n + 1 - w = Suc (n + 1 - w)" by simp
    then show ?thesis using Suc True by (simp add: valid_append replicate_append_same)
  next
    case False
    then show ?thesis using Suc by (simp add: valid_append)
  qed
qed

lemma Calc7Q_constant: "7 \<le> n \<Longrightarrow> Calc7Q (replicate n (Some c)) = Fin c"
proof -
  assume n: "7 \<le> n"
  have "valid (rolling_mean 7 (replicate n (Some c))) = replicate (n + 1 - 7) c"
    by (metis rolling_mean_replicate valid_map_upt_const zero_less_numeral)
  moreover have "n + 1 - 7 = Suc (n - 7)" using n by simp
  ultimately have "valid (rolling_mean 7 (replicate n (Some c))) = c # replicate (n - 7) c"
    by simp
  then show ?thesis by (simp add: Calc7Q_def Series_min_def fold_min_replicate)
qed

text \<open>
  Claim C6. \<open>Calc7Q\<close> of a series with fewer than 7 entries is NaN, and \<open>Calc7Q\<close> of a
  constant series of at least 7 entries is that constant.
\<close>

theorem Calc7Q_short_or_constant:
  "(length Qvalues < 7 \<longrightarrow> Calc7Q Qvalues = NaN) \<and>
   (7 \<le> n \<longrightarrow> Calc7Q (replicate n (Some c)) = Fin c)"
  using Calc7Q_short Calc7Q_constant by blast

theorem Calc7Q_short_or_constant_witness:
  "Calc7Q [Some 1, Some 2] = NaN \<and> Calc7Q (replicate 8 (Some 5)) = Fin 5"
  using Calc7Q_short_or_constant [of "[Some 1, Some 2]" 8 5] by simp

lemma window_eq:
  "i < length qs \<Longrightarrow>
     window 7 qs i = (if 6 \<le> i then take 7 (drop (i - 6) qs) else take (i + 1) qs)"
  by (auto simp: window_def drop_take)

lemma window_mean_Some_iff:
  assumes "length win \<le> 7"
  shows "window_mean 7 win = Some m \<longleftrightarrow>
           length win = 7 \<and> None \<notin> set win \<and> m = sum_list (map the win) / 7"
proof (cases "None \<in> set win")
  case True
  then have "length (valid win) \<noteq> length win" by (simp add: length_valid_eq_iff)
  then have "length (valid win) < 7" using length_valid_le [of win] assms by linarith
  then show ?thesis using True by (simp add: window_mean_def)
next
  case False
  then have v: "valid win = map the win" by (rule valid_no_missing)
  show ?thesis
  proof (cases "length win = 7")
    case True
    then have "win \<noteq> []" by auto
    then have "window_mean 7 win = Some (sum_list (map the win) / 7)"
      using True by (simp add: window_mean_def v Let_def)
    then show ?thesis using True False by auto
  next
    case F: False
    then have "window_mean 7 win = None"
      using assms by (simp add: window_mean_def v Let_def)
    then show ?thesis using F by simp
  qed
qed

lemma rolling_mean_nth:
  assumes "i < length qs"
  shows "rolling_mean 7 qs ! i = Some m \<longleftrightarrow>
           6 \<le> i \<and> None \<notin> set (take 7 (drop (i - 6) qs)) \<and>
           m = sum_list (map the (take 7 (drop (i - 6) qs))) / 7"
proof -
  have r: "rolling_mean 7 qs ! i = window_mean 7 (window 7 qs i)"
    using assms by (simp add: rolling_mean_def)
  show ?thesis
  proof (cases "6 \<le> i")
    case True
    then have w: "window 7 qs i = take 7 (drop (i - 6) qs)" using assms by (simp add: window_eq)
    have l: "length (take 7 (drop (i - 6) qs)) = 7" using True assms by auto
    show ?thesis unfolding r w using True l window_mean_Some_iff [of "take 7 (drop (i - 6) qs)" m]
      by auto
  next
    case False
    then have w: "window 7 qs i = take (i + 1) qs" using assms by (simp add: window_eq)
    have "length (take (i + 1) qs) < 7" using False by simp
    then show ?thesis unfolding r w using False window_mean_Some_iff [of "take (i + 1) qs" m]
      by auto
  qed
qed

lemma rolling_mean_missing:
  assumes "i < length qs" and "None \<in> set (window 7 qs i)"
  shows "rolling_mean 7 qs ! i = None"
proof (cases "rolling_mean 7 qs ! i")
  case None
  then show ?thesis .
next
  case (Some m)
  then have "6 \<le> i \<and> None \<notin> set (take 7 (drop (i - 6) qs))"
    using rolling_mean_nth [OF assms(1)] by blast
  then show ?thesis using assms by (simp add: window_eq)
qed

lemma fold_min_Min: "fold min vs (v::real) = Min (set (v # vs))"
  by (simp only: Min.set_eq_fold)

lemma Series_min_NaN_iff: "Series_min xs = NaN \<longleftrightarrow> (\<forall>x \<in> set xs. x = None)"
proof -
  have "valid xs = [] \<longleftrightarrow> (\<forall>x \<in> set xs. x = None)"
    by (induction xs rule: valid.induct) auto
  then show ?thesis by (auto simp: Series_min_def split: list.splits)
qed

lemma Series_min_Fin_iff:
  "Series_min xs = Fin m \<longleftrightarrow> Some m \<in> set xs \<and> (\<forall>v. Some v \<in> set xs \<longrightarrow> m \<le> v)"
proof (cases "valid xs")
  case Nil
  then have "\<And>v. Some v \<notin> set xs" using set_valid [of xs] by auto
  then show ?thesis using Nil by (simp add: Series_min_def)
next
  case (Cons v vs)
  have s: "set (v # vs) = {v. Some v \<in> set xs}" using set_valid [of xs] Cons by simp
  have "Series_min xs = Fin (Min (set (v # vs)))"
    by (simp only: Series_min_def Cons list.case fold_min_Min)
  moreover have "Min (set (v # vs)) = m \<longleftrightarrow> m \<in> set (v # vs) \<and> (\<forall>x \<in> set (v # vs). m \<le> x)"
    by (metis List.finite_set Min_eqI Min_in Min_le list.distinct(1) set_empty)
  ultimately show ?thesis unfolding s by auto
qed

lemma complete_window_index:
  "(\<exists>i < length qs. 6 \<le> i \<and> P (i - 6)) \<longleftrightarrow> (\<exists>k. k + 7 \<le> length qs \<and> P k)"
proof
  assume "\<exists>i < length qs. 6 \<le> i \<and> P (i - 6)"
  then obtain i where "i < length qs" "6 \<le> i" "P (i - 6)" by blast
  then have "(i - 6) + 7 \<le> length qs \<and> P (i - 6)" by simp
  then show "\<exists>k. k + 7 \<le> length qs \<and> P k" by blast
next
  assume "\<exists>k. k + 7 \<le> length qs \<and> P k"
  then obtain k where "k + 7 \<le> length qs" "P k" by blast
  then have "k + 6 < length qs \<and> 6 \<le> k + 6 \<and> P (k + 6 - 6)" by simp
  then show "\<exists>i < length qs. 6 \<le> i \<and> P (i - 6)" by blast
qed

lemma Some_in_rolling_mean:
  "Some m \<in> set (rolling_mean 7 qs) \<longleftrightarrow>
     (\<exists>k. k + 7 \<le> length qs \<and> None \<notin> set (take 7 (drop k qs)) \<and>
          m = sum_list (map the (take 7 (drop k qs))) / 7)"
proof -
  have len: "length (rolling_mean 7 qs) = length qs" by (simp add: rolling_mean_def)
  have "Some m \<in> set (rolling_mean 7 qs) \<longleftrightarrow>
          (\<exists>i < length qs. rolling_mean 7 qs ! i = Some m)"
    by (simp only: in_set_conv_nth len)
  also have "\<dots> \<longleftrightarrow> (\<exists>i < length qs. 6 \<le> i \<and> (None \<notin> set (take 7 (drop (i - 6) qs)) \<and>
           m = sum_list (map the (take 7 (drop (i - 6) qs))) / 7))"
    using rolling_mean_nth by blast
  also have "\<dots> \<longleftrightarrow> (\<exists>k. k + 7 \<le> length qs \<and> (None \<notin> set (take 7 (drop k qs)) \<and>
          m = sum_list (map the (take 7 (drop k qs))) / 7))"
    by (rule complete_window_index)
  finally show ?thesis .
qed

text \<open>
  Claim C10. A rolling window that holds a missing value contributes NaN. \<open>Calc7Q\<close> is
  NaN exactly when the series has no 7 consecutive non-missing entries, whatever its
  length; otherwise it is the least of the means of the runs of 7 consecutive non-missing
  entries.
\<close>

theorem Calc7Q_complete_windows:
  "(\<forall>i < length Qvalues. None \<in> set (window 7 Qvalues i) \<longrightarrow> rolling_mean 7 Qvalues ! i = None) \<and>
   (Calc7Q Qvalues = NaN \<longleftrightarrow>
      \<not> (\<exists>k. k + 7 \<le> length Qvalues \<and> None \<notin> set (take 7 (drop k Qvalues)))) \<and>
   (\<forall>m. Calc7Q Qvalues = Fin m \<longleftrightarrow>
      (\<exists>k. k + 7 \<le> length Qvalues \<and> None \<notin> set (take 7 (drop k Qvalues)) \<and>
           m = sum_list (map the (take 7 (drop k Qvalues))) / 7) \<and>
      (\<forall>k. k + 7 \<le> length Qvalues \<and> None \<notin> set (take 7 (drop k Qvalues)) \<longrightarrow>
           m \<le> sum_list (map the (take 7 (drop k Qvalues))) / 7))"
proof (intro conjI allI impI)
  fix i assume "i < length Qvalues" "None \<in> set (window 7 Qvalues i)"
  then show "rolling_mean 7 Qvalues ! i = None" by (rule rolling_mean_missing)
next
  have "Calc7Q Qvalues = NaN \<longleftrightarrow> \<not> (\<exists>m. Some m \<in> set (rolling_mean 7 Qvalues))"
    unfolding Calc7Q_def Series_min_NaN_iff by (metis not_None_eq)
  then show "Calc7Q Qvalues = NaN \<longleftrightarrow>
      \<not> (\<exists>k. k + 7 \<le> length Qvalues \<and> None \<notin> set (take 7 (drop k Qvalues)))"
    unfolding Some_in_rolling_mean by blast
next
  fix m
  show "Calc7Q Qvalues = Fin m \<longleftrightarrow>
      (\<exists>k. k + 7 \<le> length Qvalues \<and> None \<notin> set (take 7 (drop k Qvalues)) \<and>
           m = sum_list (map the (take 7 (drop k Qvalues))) / 7) \<and>
      (\<forall>k. k + 7 \<le> length Qvalues \<and> None \<notin> set (take 7 (drop k Qvalues)) \<longrightarrow>
           m \<le> sum_list (map the (take 7 (drop k Qvalues))) / 7)"
    unfolding Calc7Q_def Series_min_Fin_iff Some_in_rolling_mean by blast
qed

theorem Calc7Q_complete_windows_witness:
  "Calc7Q [Some 1, Some 1, Some 1, None, Some 1, Some 1, Some 1, Some 1] = NaN \<and>
   Calc7Q [None, Some 1, Some 2, Some 3, Some 4, Some 5, Some 6, Some 7, Some 15] = Fin 4"
proof -
  let ?a = "[Some 1, Some 1, Some 1, None, Some 1, Some 1, Some 1, Some (1::real)]"
  let ?b = "[None, Some 1, Some 2, Some 3, Some 4, Some 5, Some 6, Some 7, Some (15::real)]"
  have "\<not> (\<exists>k. k + 7 \<le> length ?a \<and> None \<notin> set (take 7 (drop k ?a)))"
  proof
    assume "\<exists>k. k + 7 \<le> length ?a \<and> None \<notin> set (take 7 (drop k ?a))"
    then obtain k where k: "k + 7 \<le> length ?a" "None \<notin> set (take 7 (drop k ?a))"
      by blast
    from k(1) have "k = 0 \<or> k = 1" by auto
    then show False using k(2) by auto
  qed
  then have a: "Calc7Q ?a = NaN" using Calc7Q_complete_windows [of ?a] by blast
  have ex: "1 + 7 \<le> length ?b \<and> None \<notin> set (take 7 (drop 1 ?b)) \<and>
      (4::real) = sum_list (map the (take 7 (drop 1 ?b))) / 7"
    by simp
  have le: "(4::real) \<le> sum_list (map the (take 7 (drop k ?b))) / 7"
    if "k + 7 \<le> length ?b \<and> None \<notin> set (take 7 (drop k ?b))" for k
  proof -
    from that have "k = 0 \<or> k = 1 \<or> k = 2" by auto
    then show ?thesis using that by auto
  qed
  have b: "Calc7Q ?b = Fin 4"
    using Calc7Q_complete_windows [of ?b] ex le by blast
  show ?thesis using a b by simp
qed

section \<open>The Loader\<close>

lemma isna_sum_Cons:
  "isna_sum (r # df) = (if Discharge r = None then 1 else 0) + isna_sum df"
  by (simp add: isna_sum_def)

lemma isna_sum_negative_to_nan:
  "isna_sum (map negative_to_nan df) =
     isna_sum df + length (filter (\<lambda>r. case Discharge r of None \<Rightarrow> False | Some v \<Rightarrow> v < 0) df)"
  by (induction df) (auto simp: isna_sum_Cons negative_to_nan_def split: option.splits)

text \<open>
  Claim C1, as amended. The count \<open>ReadData\<close> returns is the number of missing discharge
  entries of the parsed table, taken before the negative readings are overwritten: the
  number of missing entries of the returned series is that count plus the number of
  negative readings.
\<close>

theorem ReadData_count_before_correction:
  "snd (ReadData parsed) = isna_sum parsed \<and>
   isna_sum (fst (ReadData parsed)) =
     snd (ReadData parsed) +
     length (filter (\<lambda>r. case Discharge r of None \<Rightarrow> False | Some v \<Rightarrow> v < 0) parsed)"
  by (simp add: ReadData_def isna_sum_negative_to_nan)

theorem ReadData_count_before_correction_witness:
  "snd (ReadData [\<lparr>agency_cd = ''USGS'', site_no = 3335000, Date = (2000, 1, 1),
                   Discharge = None, Quality = ''Eqp''\<rparr>,
                  \<lparr>agency_cd = ''USGS'', site_no = 3335000, Date = (2000, 1, 2),
                   Discharge = Some (-5), Quality = ''A''\<rparr>]) = 1 \<and>
   isna_sum (fst (ReadData [\<lparr>agency_cd = ''USGS'', site_no = 3335000, Date = (2000, 1, 1),
                   Discharge = None, Quality = ''Eqp''\<rparr>,
                  \<lparr>agency_cd = ''USGS'', site_no = 3335000, Date = (2000, 1, 2),
                   Discharge = Some (-5), Quality = ''A''\<rparr>])) = 2"
  using ReadData_count_before_correction
    [of "[\<lparr>agency_cd = ''USGS'', site_no = 3335000, Date = (2000, 1, 1),
                   Discharge = None, Quality = ''Eqp''\<rparr>,
                  \<lparr>agency_cd = ''USGS'', site_no = 3335000, Date = (2000, 1, 2),
                   Discharge = Some (-5), Quality = ''A''\<rparr>]"]
  by (simp add: isna_sum_def)

text \<open>
  Claim C1 as stated fails on a table with one negative reading: the returned count is 0,
  and the returned series has 1 missing entry.
\<close>

theorem ReadData_count_counterexample:
  "snd (ReadData [\<lparr>agency_cd = ''USGS'', site_no = 3335000, Date = (2000, 1, 1),
                   Discharge = Some (-1), Quality = ''A''\<rparr>]) = 0 \<and>
   isna_sum (fst (ReadData [\<lparr>agency_cd = ''USGS'', site_no = 3335000, Date = (2000, 1, 1),
                   Discharge = Some (-1), Quality = ''A''\<rparr>])) = 1"
  by (simp add: ReadData_def isna_sum_def negative_to_nan_def)

section \<open>The Clipper\<close>

lemma sorted_between:
  "sorted xs \<Longrightarrow> x \<in> set xs \<Longrightarrow> hd xs \<le> x \<and> x \<le> last xs"
proof (induction xs)
  case Nil
  then show ?case by simp
next
  case (Cons a xs)
  show ?case
  proof (cases "xs = []")
    case True
    then show ?thesis using Cons.prems by simp
  next
    case False
    then have "last xs \<in> set xs" by simp
    then have "a \<le> last xs" using Cons.prems(1) by auto
    then show ?thesis using Cons False by auto
  qed
qed

lemma loc_slice_full:
  assumes "sorted (map Date df)" and "df \<noteq> []"
  shows "loc_slice df (Date (hd df)) (Date (last df)) = df"
proof -
  have "Date (hd df) \<le> Date r \<and> Date r \<le> Date (last df)" if "r \<in> set df" for r
  proof -
    have "Date r \<in> set (map Date df)" using that by simp
    then have "hd (map Date df) \<le> Date r \<and> Date r \<le> last (map Date df)"
      using assms(1) by (intro sorted_between)
    then show ?thesis using assms(2) by (simp add: hd_map last_map)
  qed
  then show ?thesis by (simp add: loc_slice_def)
qed

lemma length_loc_slice: "length (loc_slice df a b) \<le> length df"
  by (simp add: loc_slice_def)

text \<open>
  Claim C8. For a table sorted by date, \<open>ClipData\<close> from its first date to its last
  returns a table equal to it, with the count of its missing entries; for any range the
  returned table has at most as many rows, and the count is that of its missing entries.
  Every table of the store, the input among them, is left as it was.
\<close>

theorem ClipData_full_and_sub_range:
  assumes "DataDF < length s" and "sorted (map Date (s ! DataDF))" and "s ! DataDF \<noteq> []"
  shows "(\<exists>s' r. ClipData s DataDF (Date (hd (s ! DataDF))) (Date (last (s ! DataDF))) =
                   Some (s', r, isna_sum (s ! DataDF)) \<and>
                 s' ! r = s ! DataDF \<and> (\<forall>i < length s. s' ! i = s ! i)) \<and>
         (\<exists>s' r k. ClipData s DataDF startDate endDate = Some (s', r, k) \<and>
                 length (s' ! r) \<le> length (s ! DataDF) \<and> k = isna_sum (s' ! r) \<and>
                 (\<forall>i < length s. s' ! i = s ! i))"
  using assms
  by (simp add: ClipData_def Let_def loc_slice_full length_loc_slice nth_append)

theorem ClipData_full_and_sub_range_witness:
  "(\<exists>s' r. ClipData [[example_obs 2000 3 2 (Some 2), example_obs 2000 3 3 None,
                       example_obs 2000 3 4 (Some 4)]] 0 (2000, 3, 2) (2000, 3, 4) =
             Some (s', r, 1) \<and>
           s' ! r = [example_obs 2000 3 2 (Some 2), example_obs 2000 3 3 None,
                     example_obs 2000 3 4 (Some 4)] \<and>
           s' ! 0 = [example_obs 2000 3 2 (Some 2), example_obs 2000 3 3 None,
                     example_obs 2000 3 4 (Some 4)]) \<and>
   (\<exists>s' r k. ClipData [[example_obs 2000 3 2 (Some 2), example_obs 2000 3 3 None,
                         example_obs 2000 3 4 (Some 4)]] 0 (2000, 3, 3) (2000, 3, 4) =
             Some (s', r, k) \<and> length (s' ! r) \<le> 3 \<and>
           s' ! 0 = [example_obs 2000 3 2 (Some 2), example_obs 2000 3 3 None,
                     example_obs 2000 3 4 (Some 4)])"
proof -
  let ?df = "[example_obs 2000 3 2 (Some 2), example_obs 2000 3 3 None,
              example_obs 2000 3 4 (Some 4)]"
  have h1: "0 < length [?df]" by simp
  have h2: "sorted (map Date ([?df] ! 0))" by (simp add: example_obs_def less_eq_prod_def)
  have h3: "[?df] ! 0 \<noteq> []" by simp
  have d: "Date (hd ([?df] ! 0)) = (2000, 3, 2)" "Date (last ([?df] ! 0)) = (2000, 3, 4)"
    by (simp_all add: example_obs_def)
  have n: "isna_sum ([?df] ! 0) = 1" by (simp add: example_obs_def isna_sum_def)
  from ClipData_full_and_sub_range [OF h1 h2 h3, of "(2000, 3, 3)" "(2000, 3, 4)"]
  show ?thesis unfolding d n by auto
qed

section \<open>The Aggregator\<close>

lemma map_of_map_key:
  "map_of (map (\<lambda>(k, v). (k, F k v)) xs) k = map_option (F k) (map_of xs k)"
  by (induction xs) auto

lemma map_fst_map_key: "map fst (map (\<lambda>(k, v). (k, F k v)) xs) = map fst xs"
  by (induction xs) auto

lemma map_of_agg: "map_of (agg col f) l = map_option f (map_of col l)"
  unfolding agg_def by (rule map_of_map_key)

lemma reindexed_agg: "map_of col l = Some q \<Longrightarrow> reindexed (agg col f) l = f q"
  by (simp add: reindexed_def map_of_agg)

lemma map_of_series_div:
  "map_of (series_div a b) l = map_option (\<lambda>v. fdiv v (reindexed b l)) (map_of a l)"
  unfolding series_div_def by (rule map_of_map_key)

lemma map_of_series_mul:
  "map_of (series_mul a c) l = map_option (\<lambda>v. fmul v (Fin c)) (map_of a l)"
  unfolding series_mul_def by (rule map_of_map_key)

lemma reindexed_coeff_var:
  "map_of col l = Some q \<Longrightarrow>
     reindexed (series_mul (series_div (agg col f1) (agg col f2)) c) l =
       fmul (fdiv (f1 q) (f2 q)) (Fin c)"
  by (simp add: reindexed_def map_of_series_mul map_of_series_div map_of_agg)

lemma getitem_Discharge:
  "getitem g ''Discharge'' = Inr (map (\<lambda>(l, b). (l, map Discharge b)) g)"
  by (simp add: getitem_def)

lemma getitem_site_no:
  "getitem g ''site_no'' =
     Inr (map (\<lambda>(l, b). (l, map (\<lambda>r. Some (real_of_int (site_no r))) b)) g)"
  by (simp add: getitem_def)

lemma map_of_column:
  "map_of g l = Some b \<Longrightarrow> map_of (map (\<lambda>(l, b). (l, F b)) g) l = Some (F b)"
  by (simp add: map_of_map_key)

lemma apply_dict_Discharge:
  "apply_dict g [(''Discharge'', f)] =
     Inr [(''Discharge'', agg (map (\<lambda>(l, b). (l, map Discharge b)) g) f)]"
  by (simp add: getitem_Discharge)

lemma label_inj: "label f j = label f k \<Longrightarrow> j = k"
proof (cases f)
  case A_SEP
  assume "label f j = label f k"
  then show ?thesis using A_SEP by simp
next
  case MS
  assume "label f j = label f k"
  then have "j div 12 = k div 12" "nat (j mod 12) = nat (k mod 12)" using MS by simp_all
  then have "j div 12 = k div 12" "j mod 12 = k mod 12" by simp_all
  then show ?thesis by (metis div_mult_mod_eq)
qed

lemma resample_empty: "resample f [] = Inl TypeError"
  by (simp add: resample_def)

lemma resample_Inr: "df \<noteq> [] \<Longrightarrow> \<exists>g. resample f df = Inr g"
  by (simp add: resample_def Let_def)

lemma resample_bins:
  assumes "resample f df = Inr g"
  shows "df \<noteq> []"
    and "g = map (\<lambda>k. (label f k, filter (\<lambda>r. period f (Date r) = k) (sort_key Date df)))
      [Min (set (map (\<lambda>r. period f (Date r)) df))..Max (set (map (\<lambda>r. period f (Date r)) df))]"
  using assms by (auto simp: resample_def Let_def split: if_splits)

lemma resample_mem:
  assumes "resample f df = Inr g"
  shows "(l, b) \<in> set g \<longleftrightarrow>
     (\<exists>k. Min (set (map (\<lambda>r. period f (Date r)) df)) \<le> k \<and>
          k \<le> Max (set (map (\<lambda>r. period f (Date r)) df)) \<and>
          l = label f k \<and> b = filter (\<lambda>r. period f (Date r) = k) (sort_key Date df))"
  unfolding resample_bins(2) [OF assms] by auto

lemma distinct_resample:
  assumes "resample f df = Inr g"
  shows "distinct (map fst g)"
proof -
  have "distinct (map (label f) [a..b])" for a b
    by (simp add: distinct_map inj_on_def label_inj)
  then show ?thesis unfolding resample_bins(2) [OF assms] by (simp add: comp_def)
qed

lemma map_of_resample:
  "resample f df = Inr g \<Longrightarrow> (l, b) \<in> set g \<Longrightarrow> map_of g l = Some b"
  using distinct_resample by simp

lemma annual_rows:
  assumes "distinct (map fst g)"
  shows "map (\<lambda>l. (l,
           \<lparr> site_no_col =
               reindexed (agg (map (\<lambda>(l, b). (l, map (\<lambda>r. Some (real_of_int (site_no r))) b)) g)
                            Series_min) l,
             Mean_Flow = reindexed (agg (map (\<lambda>(l, b). (l, map Discharge b)) g) Series_mean) l,
             Coeff_Var =
               reindexed (series_mul (series_div
                  (agg (map (\<lambda>(l, b). (l, map Discharge b)) g) Series_std)
                  (agg (map (\<lambda>(l, b). (l, map Discharge b)) g) Series_mean)) 100) l,
             Tqmean = reindexed (agg (map (\<lambda>(l, b). (l, map Discharge b)) g)
                                   (\<lambda>x. CalcTqmean x)) l,
             RB_Index = reindexed (agg (map (\<lambda>(l, b). (l, map Discharge b)) g)
                                     (\<lambda>x. CalcRBindex x)) l,
             Peak_Flow = reindexed (agg (map (\<lambda>(l, b). (l, map Discharge b)) g) Series_max) l,
             Median_Flow =
               reindexed (agg (map (\<lambda>(l, b). (l, map Discharge b)) g) Series_median) l,
             Skew = reindexed (agg (map (\<lambda>(l, b). (l, map Discharge b)) g) Series_skew) l,
             sevenQ = reindexed (agg (map (\<lambda>(l, b). (l, map Discharge b)) g)
                                   (\<lambda>x. Calc7Q x)) l,
             exceed3xMedian =
               reindexed (agg (map (\<lambda>(l, b). (l, map Discharge b)) g)
                            (\<lambda>x. Fin (real (CalcExceed3TimesMedian x)))) l \<rparr>))
          (map fst g) =
         map (\<lambda>(l, b). (l, annual_metrics b)) g"
proof -
  have "(fst x,
           \<lparr> site_no_col =
               reindexed (agg (map (\<lambda>(l, b). (l, map (\<lambda>r. Some (real_of_int (site_no r))) b)) g)
                            Series_min) (fst x),
             Mean_Flow =
               reindexed (agg (map (\<lambda>(l, b). (l, map Discharge b)) g) Series_mean) (fst x),
             Coeff_Var =
               reindexed (series_mul (series_div
                  (agg (map (\<lambda>(l, b). (l, map Discharge b)) g) Series_std)
                  (agg (map (\<lambda>(l, b). (l, map Discharge b)) g) Series_mean)) 100) (fst x),
             Tqmean = reindexed (agg (map (\<lambda>(l, b). (l, map Discharge b)) g)
                                   (\<lambda>x. CalcTqmean x)) (fst x),
             RB_Index = reindexed (agg (map (\<lambda>(l, b). (l, map Discharge b)) g)
                                     (\<lambda>x. CalcRBindex x)) (fst x),
             Peak_Flow =
               reindexed (agg (map (\<lambda>(l, b). (l, map Discharge b)) g) Series_max) (fst x),
             Median_Flow =
               reindexed (agg (map (\<lambda>(l, b). (l, map Discharge b)) g) Series_median) (fst x),
             Skew = reindexed (agg (map (\<lambda>(l, b). (l, map Discharge b)) g) Series_skew) (fst x),
             sevenQ = reindexed (agg (map (\<lambda>(l, b). (l, map Discharge b)) g)
                                   (\<lambda>x. Calc7Q x)) (fst x),
             exceed3xMedian =
               reindexed (agg (map (\<lambda>(l, b). (l, map Discharge b)) g)
                            (\<lambda>x. Fin (real (CalcExceed3TimesMedian x)))) (fst x) \<rparr>) =
        (case x of (l, b) \<Rightarrow> (l, annual_metrics b))"
    if "x \<in> set g" for x
  proof -
    obtain l b where x: "x = (l, b)" by (cases x)
    then have m: "map_of g l = Some b" using that assms by simp
    note d = map_of_column [OF m, of "map Discharge"]
    note s = map_of_column [OF m, of "map (\<lambda>r. Some (real_of_int (site_no r)))"]
    show ?thesis
      by (simp add: x annual_metrics_def reindexed_agg [OF d] reindexed_agg [OF s]
            reindexed_coeff_var [OF d])
  qed
  then show ?thesis by (simp only: map_map comp_def cong: map_cong)
qed

lemma GetAnnualStatistics_rows:
  assumes "resample A_SEP DataDF = Inr g"
  shows "GetAnnualStatistics DataDF = Inr (map (\<lambda>(l, b). (l, annual_metrics b)) g)"
proof -
  have i: "map fst (agg (map (\<lambda>(l, b). (l, map Discharge b)) g) Series_mean) = map fst g"
    by (simp add: agg_def comp_def case_prod_beta)
  show ?thesis
    by (simp only: GetAnnualStatistics_def assms getitem_Discharge getitem_site_no sum.case
          Let_def i annual_rows [OF distinct_resample [OF assms]])
qed

lemma monthly_rows:
  assumes "distinct (map fst g)"
  shows "map (\<lambda>l. (l,
           \<lparr> site_no_col =
               reindexed (agg (map (\<lambda>(l, b). (l, map (\<lambda>r. Some (real_of_int (site_no r))) b)) g)
                            Series_min) l,
             Mean_Flow = reindexed (agg (map (\<lambda>(l, b). (l, map Discharge b)) g) Series_mean) l,
             Coeff_Var =
               reindexed (series_mul (series_div
                  (agg (map (\<lambda>(l, b). (l, map Discharge b)) g) Series_std)
                  (agg (map (\<lambda>(l, b). (l, map Discharge b)) g) Series_mean)) 100) l,
             Tqmean = reindexed (agg (map (\<lambda>(l, b). (l, map Discharge b)) g)
                                   (\<lambda>x. CalcTqmean x)) l,
             RB_Index = reindexed (agg (map (\<lambda>(l, b). (l, map Discharge b)) g)
                                     (\<lambda>x. CalcRBindex x)) l \<rparr>))
          (map fst g) =
         map (\<lambda>(l, b). (l, monthly_metrics b)) g"
proof -
  have "(fst x,
           \<lparr> site_no_col =
               reindexed (agg (map (\<lambda>(l, b). (l, map (\<lambda>r. Some (real_of_int (site_no r))) b)) g)
                            Series_min) (fst x),
             Mean_Flow =
               reindexed (agg (map (\<lambda>(l, b). (l, map Discharge b)) g) Series_mean) (fst x),
             Coeff_Var =
               reindexed (series_mul (series_div
                  (agg (map (\<lambda>(l, b). (l, map Discharge b)) g) Series_std)
                  (agg (map (\<lambda>(l, b). (l, map Discharge b)) g) Series_mean)) 100) (fst x),
             Tqmean = reindexed (agg (map (\<lambda>(l, b). (l, map Discharge b)) g)
                                   (\<lambda>x. CalcTqmean x)) (fst x),
             RB_Index = reindexed (agg (map (\<lambda>(l, b). (l, map Discharge b)) g)
                                     (\<lambda>x. CalcRBindex x)) (fst x) \<rparr>) =
        (case x of (l, b) \<Rightarrow> (l, monthly_metrics b))"
    if "x \<in> set g" for x
  proof -
    obtain l b where x: "x = (l, b)" by (cases x)
    then have m: "map_of g l = Some b" using that assms by simp
    note d = map_of_column [OF m, of "map Discharge"]
    note s = map_of_column [OF m, of "map (\<lambda>r. Some (real_of_int (site_no r)))"]
    show ?thesis
      by (simp add: x monthly_metrics_def reindexed_agg [OF d] reindexed_agg [OF s]
            reindexed_coeff_var [OF d])
  qed
  then show ?thesis by (simp only: map_map comp_def cong: map_cong)
qed

lemma GetMonthlyStatistics_rows:
  assumes "resample MS DataDF = Inr g"
  shows "GetMonthlyStatistics DataDF = Inr (map (\<lambda>(l, b). (l, monthly_metrics b)) g)"
proof -
  have i: "map fst (agg (map (\<lambda>(l, b). (l, map Discharge b)) g) Series_mean) = map fst g"
    by (simp add: agg_def comp_def case_prod_beta)
  have a: "apply_dict g [(''Discharge'', \<lambda>x. CalcRBindex x)] =
      Inr [(''Discharge'', agg (map (\<lambda>(l, b). (l, map Discharge b)) g) (\<lambda>x. CalcRBindex x))]"
    by (rule apply_dict_Discharge)
  show ?thesis
    by (simp only: GetMonthlyStatistics_def assms getitem_Discharge getitem_site_no sum.case
          a setitem_frame.simps Let_def i monthly_rows [OF distinct_resample [OF assms]])
qed

lemma map_of_annual:
  "resample A_SEP DataDF = Inr g \<Longrightarrow> (l, b) \<in> set g \<Longrightarrow>
     map_of (map (\<lambda>(l, b). (l, annual_metrics b)) g) l = Some (annual_metrics b)"
  by (simp add: map_of_map_key map_of_resample)

lemma map_of_monthly:
  "resample MS DataDF = Inr g \<Longrightarrow> (l, b) \<in> set g \<Longrightarrow>
     map_of (map (\<lambda>(l, b). (l, monthly_metrics b)) g) l = Some (monthly_metrics b)"
  by (simp add: map_of_map_key map_of_resample)

lemma span_iff:
  assumes "df \<noteq> []"
  shows "Min (set (map (\<lambda>r. period f (Date r)) df)) \<le> k \<and>
         k \<le> Max (set (map (\<lambda>r. period f (Date r)) df)) \<longleftrightarrow>
         (\<exists>r \<in> set df. period f (Date r) \<le> k) \<and> (\<exists>r \<in> set df. k \<le> period f (Date r))"
proof -
  let ?A = "set (map (\<lambda>r. period f (Date r)) df)"
  have fin: "finite ?A" and ne: "?A \<noteq> {}" using assms by simp_all
  have "Min ?A \<le> k \<longleftrightarrow> (\<exists>a \<in> ?A. a \<le> k)" using fin ne by (rule Min_le_iff)
  moreover have "k \<le> Max ?A \<longleftrightarrow> (\<exists>a \<in> ?A. k \<le> a)" using fin ne by (rule Max_ge_iff)
  ultimately show ?thesis by auto
qed

lemma period_A_SEP_le:
  "valid_date t \<Longrightarrow> period A_SEP t \<le> y \<longleftrightarrow> t \<le> (y, 9, 30)"
  by (cases t) (auto simp: less_eq_prod_def less_prod_def days_in_month_def split: if_splits)

lemma period_A_SEP_ge:
  "valid_date t \<Longrightarrow> y \<le> period A_SEP t \<longleftrightarrow> (y - 1, 10, 1) \<le> t"
  by (cases t) (auto simp: less_eq_prod_def less_prod_def days_in_month_def)

lemma period_A_SEP_eq:
  "valid_date t \<Longrightarrow> period A_SEP t = y \<longleftrightarrow> in_water_year y t"
  unfolding in_water_year_def
  using period_A_SEP_le [of t y] period_A_SEP_ge [of t y] by auto

lemma annual_labels:
  assumes "\<forall>r \<in> set DataDF. valid_date (Date r)" and "resample A_SEP DataDF = Inr g"
  shows "l \<in> fst ` set g \<longleftrightarrow>
           (\<exists>y. l = (y, 9, 30) \<and> (\<exists>r \<in> set DataDF. Date r \<le> (y, 9, 30)) \<and>
                (\<exists>r \<in> set DataDF. (y - 1, 10, 1) \<le> Date r))"
proof -
  have ne: "DataDF \<noteq> []" using assms(2) by (rule resample_bins(1))
  have "l \<in> fst ` set g \<longleftrightarrow> (\<exists>b. (l, b) \<in> set g)" by force
  also have "\<dots> \<longleftrightarrow> (\<exists>y. l = (y, 9, 30) \<and>
       (Min (set (map (\<lambda>r. period A_SEP (Date r)) DataDF)) \<le> y \<and>
        y \<le> Max (set (map (\<lambda>r. period A_SEP (Date r)) DataDF))))"
    by (auto simp: resample_mem [OF assms(2)])
  also have "\<dots> \<longleftrightarrow> (\<exists>y. l = (y, 9, 30) \<and>
       ((\<exists>r \<in> set DataDF. period A_SEP (Date r) \<le> y) \<and>
        (\<exists>r \<in> set DataDF. y \<le> period A_SEP (Date r))))"
    by (simp only: span_iff [OF ne])
  also have "\<dots> \<longleftrightarrow> (\<exists>y. l = (y, 9, 30) \<and> (\<exists>r \<in> set DataDF. Date r \<le> (y, 9, 30)) \<and>
                (\<exists>r \<in> set DataDF. (y - 1, 10, 1) \<le> Date r))"
    using assms(1) by (simp add: period_A_SEP_le period_A_SEP_ge cong: bex_cong)
  finally show ?thesis .
qed

lemma annual_bucket:
  assumes "\<forall>r \<in> set DataDF. valid_date (Date r)" and "resample A_SEP DataDF = Inr g"
    and "((y, 9, 30), b) \<in> set g"
  shows "b = filter (\<lambda>r. in_water_year y (Date r)) (sort_key Date DataDF)"
proof -
  from assms(3) obtain k where "(y, 9, 30) = label A_SEP k"
    and "b = filter (\<lambda>r. period A_SEP (Date r) = k) (sort_key Date DataDF)"
    unfolding resample_mem [OF assms(2)] by blast
  then have "b = filter (\<lambda>r. period A_SEP (Date r) = y) (sort_key Date DataDF)" by simp
  also have "\<dots> = filter (\<lambda>r. in_water_year y (Date r)) (sort_key Date DataDF)"
    using assms(1) by (intro filter_cong) (simp_all add: period_A_SEP_eq)
  finally show ?thesis .
qed

text \<open>
  Claim C5. For a table of calendar dates that is not empty, \<open>GetAnnualStatistics\<close> returns
  a table with one row for each water year of the span of the rows and no other row: its
  labels are distinct, a label is September 30 of a year \<open>y\<close> such that some row lies on or
  before that day and some row lies on or after October 1 of the year before, and the row
  labelled September 30 of \<open>y\<close> holds the metrics of the rows dated from October 1 of
  \<open>y - 1\<close> to September 30 of \<open>y\<close>, taken in the order of their dates.
\<close>

theorem GetAnnualStatistics_water_years:
  assumes "\<forall>r \<in> set DataDF. valid_date (Date r)" and "DataDF \<noteq> []"
  shows "\<exists>table. GetAnnualStatistics DataDF = Inr table \<and>
           distinct (map fst table) \<and>
           (\<forall>l. l \<in> fst ` set table \<longleftrightarrow>
              (\<exists>y. l = (y, 9, 30) \<and> (\<exists>r \<in> set DataDF. Date r \<le> (y, 9, 30)) \<and>
                   (\<exists>r \<in> set DataDF. (y - 1, 10, 1) \<le> Date r))) \<and>
           (\<forall>y row. ((y, 9, 30), row) \<in> set table \<longrightarrow>
              row = annual_metrics
                      (filter (\<lambda>r. in_water_year y (Date r)) (sort_key Date DataDF)))"
proof -
  obtain g where g: "resample A_SEP DataDF = Inr g" using assms(2) resample_Inr by blast
  let ?table = "map (\<lambda>(l, b). (l, annual_metrics b)) g"
  have t: "GetAnnualStatistics DataDF = Inr ?table" using g by (rule GetAnnualStatistics_rows)
  have f: "map fst ?table = map fst g" by (simp add: comp_def case_prod_beta)
  have d: "distinct (map fst ?table)" using distinct_resample [OF g] by (simp only: f)
  have "fst ` set ?table = fst ` set g" using f by (metis set_map)
  then have l: "\<forall>l. l \<in> fst ` set ?table \<longleftrightarrow>
              (\<exists>y. l = (y, 9, 30) \<and> (\<exists>r \<in> set DataDF. Date r \<le> (y, 9, 30)) \<and>
                   (\<exists>r \<in> set DataDF. (y - 1, 10, 1) \<le> Date r))"
    using annual_labels [OF assms(1) g] by simp
  have r: "\<forall>y row. ((y, 9, 30), row) \<in> set ?table \<longrightarrow>
              row = annual_metrics
                      (filter (\<lambda>r. in_water_year y (Date r)) (sort_key Date DataDF))"
  proof (intro allI impI)
    fix y row assume "((y, 9, 30), row) \<in> set ?table"
    then obtain b where b: "((y, 9, 30), b) \<in> set g" and row: "row = annual_metrics b"
      by auto
    show "row = annual_metrics
                      (filter (\<lambda>r. in_water_year y (Date r)) (sort_key Date DataDF))"
      using annual_bucket [OF assms(1) g b] row by simp
  qed
  show ?thesis using t d l r by blast
qed

lemma example_sorted:
  "sort_key Date [example_obs 2000 8 17 (Some 1), example_obs 2000 8 15 (Some 4),
                  example_obs 2002 10 2 (Some 3), example_obs 2000 8 16 (Some 2)] =
     [example_obs 2000 8 15 (Some 4), example_obs 2000 8 16 (Some 2),
      example_obs 2000 8 17 (Some 1), example_obs 2002 10 2 (Some 3)]"
  by (simp add: example_obs_def less_eq_prod_def)

theorem GetAnnualStatistics_water_years_witness:
  "\<exists>table row. GetAnnualStatistics
      [example_obs 2000 8 17 (Some 1), example_obs 2000 8 15 (Some 4),
       example_obs 2002 10 2 (Some 3), example_obs 2000 8 16 (Some 2)] = Inr table \<and>
     distinct (map fst table) \<and>
     (2001, 9, 30) \<in> fst ` set table \<and> (2003, 9, 30) \<in> fst ` set table \<and>
     (2004, 9, 30) \<notin> fst ` set table \<and>
     ((2000, 9, 30), row) \<in> set table \<and>
     RB_Index row = CalcRBindex [Some 4, Some 2, Some 1]"
proof -
  let ?df = "[example_obs 2000 8 17 (Some 1), example_obs 2000 8 15 (Some 4),
              example_obs 2002 10 2 (Some 3), example_obs 2000 8 16 (Some 2)]"
  have v: "\<forall>r \<in> set ?df. valid_date (Date r)"
    by (simp add: example_obs_def days_in_month_def)
  have ne: "?df \<noteq> []" by simp
  from GetAnnualStatistics_water_years [OF v ne] obtain table
    where t: "GetAnnualStatistics ?df = Inr table"
      and d: "distinct (map fst table)"
      and l: "\<And>l. l \<in> fst ` set table \<longleftrightarrow>
              (\<exists>y. l = (y, 9, 30) \<and> (\<exists>r \<in> set ?df. Date r \<le> (y, 9, 30)) \<and>
                   (\<exists>r \<in> set ?df. (y - 1, 10, 1) \<le> Date r))"
      and r: "\<And>y row. ((y, 9, 30), row) \<in> set table \<Longrightarrow>
              row = annual_metrics (filter (\<lambda>r. in_water_year y (Date r)) (sort_key Date ?df))"
    by blast
  have i1: "(2001, 9, 30) \<in> fst ` set table"
    unfolding l by (simp add: example_obs_def less_eq_prod_def)
  have i3: "(2003, 9, 30) \<in> fst ` set table"
    unfolding l by (simp add: example_obs_def less_eq_prod_def)
  have o: "(2004, 9, 30) \<notin> fst ` set table"
    unfolding l by (simp add: example_obs_def less_eq_prod_def)
  have "(2000, 9, 30) \<in> fst ` set table"
    unfolding l by (simp add: example_obs_def less_eq_prod_def)
  then obtain row where row: "((2000, 9, 30), row) \<in> set table" by force
  have "filter (\<lambda>r. in_water_year 2000 (Date r)) (sort_key Date ?df) =
      [example_obs 2000 8 15 (Some 4), example_obs 2000 8 16 (Some 2),
       example_obs 2000 8 17 (Some 1)]"
    unfolding example_sorted by (simp add: example_obs_def in_water_year_def less_eq_prod_def)
  then have "row = annual_metrics [example_obs 2000 8 15 (Some 4), example_obs 2000 8 16 (Some 2),
       example_obs 2000 8 17 (Some 1)]"
    using r [OF row] by simp
  then have "RB_Index row = CalcRBindex [Some 4, Some 2, Some 1]"
    by (simp add: annual_metrics_def example_obs_def)
  then show ?thesis using t d i1 i3 o row by blast
qed

text \<open>
  Claim C9. Whenever the table resamples by month, \<open>GetMonthlyStatistics\<close> returns a table
  in which, for every monthly bucket, the column R-B Index, computed by \<open>apply\<close> with a
  dictionary on the resampler and assigned as a table of one column, is \<open>CalcRBindex\<close> of the
  discharge values of the bucket. This is also the value that the annual route, \<open>apply\<close> on
  the Discharge column of the resampler, gives on the same buckets.
\<close>

theorem GetMonthlyStatistics_RB_Index:
  assumes "resample MS DataDF = Inr g"
  shows "\<exists>table col. GetMonthlyStatistics DataDF = Inr table \<and>
           getitem g ''Discharge'' = Inr col \<and>
           (\<forall>(l, b) \<in> set g.
              \<exists>row. map_of table l = Some row \<and>
                    RB_Index row = CalcRBindex (map Discharge b) \<and>
                    RB_Index row = reindexed (agg col (\<lambda>x. CalcRBindex x)) l)"
proof -
  let ?table = "map (\<lambda>(l, b). (l, monthly_metrics b)) g"
  let ?col = "map (\<lambda>(l, b). (l, map Discharge b)) g"
  have t: "GetMonthlyStatistics DataDF = Inr ?table"
    using assms by (rule GetMonthlyStatistics_rows)
  have c: "getitem g ''Discharge'' = Inr ?col" by (rule getitem_Discharge)
  have "\<exists>row. map_of ?table l = Some row \<and>
              RB_Index row = CalcRBindex (map Discharge b) \<and>
              RB_Index row = reindexed (agg ?col (\<lambda>x. CalcRBindex x)) l"
    if "(l, b) \<in> set g" for l b
  proof -
    have m: "map_of g l = Some b" using assms that by (rule map_of_resample)
    have "map_of ?table l = Some (monthly_metrics b)"
      using assms that by (rule map_of_monthly)
    moreover have "RB_Index (monthly_metrics b) = CalcRBindex (map Discharge b)"
      by (simp add: monthly_metrics_def)
    moreover have "reindexed (agg ?col (\<lambda>x. CalcRBindex x)) l = CalcRBindex (map Discharge b)"
      using map_of_column [OF m, of "map Discharge"] by (rule reindexed_agg)
    ultimately show ?thesis by simp
  qed
  then have "\<forall>(l, b) \<in> set g.
              \<exists>row. map_of ?table l = Some row \<and>
                    RB_Index row = CalcRBindex (map Discharge b) \<and>
                    RB_Index row = reindexed (agg ?col (\<lambda>x. CalcRBindex x)) l"
    by blast
  then show ?thesis using t c by blast
qed

lemma example_resample_MS:
  "resample MS [example_obs 2001 2 5 (Some 4), example_obs 2000 12 31 (Some 7),
                example_obs 2001 2 3 (Some 2)] =
     Inr [((2000, 12, 1), [example_obs 2000 12 31 (Some 7)]), ((2001, 1, 1), []),
          ((2001, 2, 1), [example_obs 2001 2 3 (Some 2), example_obs 2001 2 5 (Some 4)])]"
  by (simp add: resample_def example_obs_def less_eq_prod_def upto.simps)

theorem GetMonthlyStatistics_RB_Index_witness:
  "\<exists>table row. GetMonthlyStatistics
      [example_obs 2001 2 5 (Some 4), example_obs 2000 12 31 (Some 7),
       example_obs 2001 2 3 (Some 2)] = Inr table \<and>
     map_of table (2001, 2, 1) = Some row \<and>
     RB_Index row = CalcRBindex [Some 2, Some 4]"
proof -
  let ?df = "[example_obs 2001 2 5 (Some 4), example_obs 2000 12 31 (Some 7),
              example_obs 2001 2 3 (Some 2)]"
  let ?b = "[example_obs 2001 2 3 (Some 2), example_obs 2001 2 5 (Some 4)]"
  from GetMonthlyStatistics_RB_Index [OF example_resample_MS] obtain table col
    where t: "GetMonthlyStatistics ?df = Inr table"
      and r: "\<forall>(l, b) \<in> set [((2000, 12, 1), [example_obs 2000 12 31 (Some 7)]),
                              ((2001, 1, 1), []), ((2001, 2, 1), ?b)].
              \<exists>row. map_of table l = Some row \<and>
                    RB_Index row = CalcRBindex (map Discharge b) \<and>
                    RB_Index row = reindexed (agg col (\<lambda>x. CalcRBindex x)) l"
    by blast
  from r obtain row where "map_of table (2001, 2, 1) = Some row"
    and "RB_Index row = CalcRBindex (map Discharge ?b)"
    by auto
  moreover have "map Discharge ?b = [Some 2, Some 4]" by (simp add: example_obs_def)
  ultimately show ?thesis using t by auto
qed

section \<open>Buckets without a valid reading\<close>

lemma count_gt_all_missing: "(\<forall>q \<in> set qs. q = None) \<Longrightarrow> count_gt qs m = 0"
  by (auto simp: count_gt_def filter_empty_conv)

lemma CalcRBindex_all_missing:
  assumes "\<forall>q \<in> set qs. q = None"
  shows "CalcRBindex qs = NaN"
proof -
  have z: "\<forall>q \<in> set qs. q = None \<or> q = Some 0" using assms by simp
  have "Series_sum (Series_abs (Series_diff qs)) = Fin 0" using z by (rule pathlength_zero)
  moreover have "Series_sum qs = Fin 0"
    using valid_all_None [OF assms] by (rule Series_sum_no_valid)
  ultimately show ?thesis by (simp add: CalcRBindex_def)
qed

lemma Calc7Q_all_missing:
  assumes "\<forall>q \<in> set qs. q = None"
  shows "Calc7Q qs = NaN"
proof -
  have "Some m \<notin> set (rolling_mean 7 qs)" for m
  proof
    assume "Some m \<in> set (rolling_mean 7 qs)"
    then obtain k where k: "k + 7 \<le> length qs" "None \<notin> set (take 7 (drop k qs))"
      unfolding Some_in_rolling_mean by blast
    then have "take 7 (drop k qs) \<noteq> []" by auto
    then obtain q where q: "q \<in> set (take 7 (drop k qs))" by (meson last_in_set)
    then have "q \<in> set qs" by (meson in_set_dropD in_set_takeD)
    then have "q = None" using assms by simp
    then show False using q k(2) by simp
  qed
  then have "\<forall>x \<in> set (rolling_mean 7 qs). x = None" by (metis not_None_eq)
  then show ?thesis unfolding Calc7Q_def by (rule Series_min_all_None)
qed

lemma annual_metrics_all_missing:
  assumes "\<forall>r \<in> set b. Discharge r = None"
  shows "Mean_Flow (annual_metrics b) = NaN \<and> Peak_Flow (annual_metrics b) = NaN \<and>
         Median_Flow (annual_metrics b) = NaN \<and> Coeff_Var (annual_metrics b) = NaN \<and>
         Skew (annual_metrics b) = NaN \<and> RB_Index (annual_metrics b) = NaN \<and>
         sevenQ (annual_metrics b) = NaN \<and> exceed3xMedian (annual_metrics b) = Fin 0"
proof -
  have a: "\<forall>q \<in> set (map Discharge b). q = None" using assms by simp
  have v: "valid (map Discharge b) = []" using a by (rule valid_all_None)
  show ?thesis
    by (simp add: annual_metrics_def Series_mean_def Series_max_def Series_median_def
          Series_std_def Series_skew_def v CalcRBindex_all_missing [OF a]
          Calc7Q_all_missing [OF a] CalcExceed3TimesMedian_def count_gt_all_missing [OF a])
qed

lemma monthly_metrics_all_missing:
  assumes "\<forall>r \<in> set b. Discharge r = None"
  shows "Mean_Flow (monthly_metrics b) = NaN \<and> Coeff_Var (monthly_metrics b) = NaN \<and>
         RB_Index (monthly_metrics b) = NaN"
proof -
  have a: "\<forall>q \<in> set (map Discharge b). q = None" using assms by simp
  have v: "valid (map Discharge b) = []" using a by (rule valid_all_None)
  show ?thesis
    by (simp add: monthly_metrics_def Series_mean_def Series_std_def v
          CalcRBindex_all_missing [OF a])
qed

text \<open>
  Claim C2, as amended. A bucket whose discharge entries are all missing has a row in the
  table. In that row Mean Flow, Peak Flow, Median Flow, Coeff Var, Skew, R-B Index and 7Q
  (annual) and Mean Flow, Coeff Var and R-B Index (monthly) are NaN, and 3xMedian, a count,
  is 0.
\<close>

theorem all_missing_bucket:
  "(\<forall>g. resample A_SEP DataDF = Inr g \<longrightarrow>
      (\<exists>table. GetAnnualStatistics DataDF = Inr table \<and>
         (\<forall>(l, b) \<in> set g. (\<forall>r \<in> set b. Discharge r = None) \<longrightarrow>
            (\<exists>row. map_of table l = Some row \<and>
               Mean_Flow row = NaN \<and> Peak_Flow row = NaN \<and> Median_Flow row = NaN \<and>
               Coeff_Var row = NaN \<and> Skew row = NaN \<and> RB_Index row = NaN \<and>
               sevenQ row = NaN \<and> exceed3xMedian row = Fin 0)))) \<and>
   (\<forall>g. resample MS DataDF = Inr g \<longrightarrow>
      (\<exists>table. GetMonthlyStatistics DataDF = Inr table \<and>
         (\<forall>(l, b) \<in> set g. (\<forall>r \<in> set b. Discharge r = None) \<longrightarrow>
            (\<exists>row. map_of table l = Some row \<and>
               Mean_Flow row = NaN \<and> Coeff_Var row = NaN \<and> RB_Index row = NaN))))"
proof (intro conjI allI impI)
  fix g assume g: "resample A_SEP DataDF = Inr g"
  have "\<exists>row. map_of (map (\<lambda>(l, b). (l, annual_metrics b)) g) l = Some row \<and>
         Mean_Flow row = NaN \<and> Peak_Flow row = NaN \<and> Median_Flow row = NaN \<and>
         Coeff_Var row = NaN \<and> Skew row = NaN \<and> RB_Index row = NaN \<and>
         sevenQ row = NaN \<and> exceed3xMedian row = Fin 0"
    if "(l, b) \<in> set g" "\<forall>r \<in> set b. Discharge r = None" for l b
    using map_of_annual [OF g that(1)] annual_metrics_all_missing [OF that(2)] by blast
  then show "\<exists>table. GetAnnualStatistics DataDF = Inr table \<and>
         (\<forall>(l, b) \<in> set g. (\<forall>r \<in> set b. Discharge r = None) \<longrightarrow>
            (\<exists>row. map_of table l = Some row \<and>
               Mean_Flow row = NaN \<and> Peak_Flow row = NaN \<and> Median_Flow row = NaN \<and>
               Coeff_Var row = NaN \<and> Skew row = NaN \<and> RB_Index row = NaN \<and>
               sevenQ row = NaN \<and> exceed3xMedian row = Fin 0))"
    using GetAnnualStatistics_rows [OF g] by blast
next
  fix g assume g: "resample MS DataDF = Inr g"
  have "\<exists>row. map_of (map (\<lambda>(l, b). (l, monthly_metrics b)) g) l = Some row \<and>
         Mean_Flow row = NaN \<and> Coeff_Var row = NaN \<and> RB_Index row = NaN"
    if "(l, b) \<in> set g" "\<forall>r \<in> set b. Discharge r = None" for l b
    using map_of_monthly [OF g that(1)] monthly_metrics_all_missing [OF that(2)] by blast
  then show "\<exists>table. GetMonthlyStatistics DataDF = Inr table \<and>
         (\<forall>(l, b) \<in> set g. (\<forall>r \<in> set b. Discharge r = None) \<longrightarrow>
            (\<exists>row. map_of table l = Some row \<and>
               Mean_Flow row = NaN \<and> Coeff_Var row = NaN \<and> RB_Index row = NaN))"
    using GetMonthlyStatistics_rows [OF g] by blast
qed

lemma resample_ex1:
  "resample A_SEP [example_obs 2000 8 15 None] =
     Inr [((2000, 9, 30), [example_obs 2000 8 15 None])]"
  by (simp add: resample_def example_obs_def)

theorem all_missing_bucket_witness:
  "\<exists>table row. GetAnnualStatistics [example_obs 2000 8 15 None] = Inr table \<and>
         map_of table (2000, 9, 30) = Some row \<and>
         Mean_Flow row = NaN \<and> Peak_Flow row = NaN \<and> Median_Flow row = NaN \<and>
         Coeff_Var row = NaN \<and> Skew row = NaN \<and> RB_Index row = NaN \<and>
         sevenQ row = NaN \<and> exceed3xMedian row = Fin 0"
proof -
  let ?b = "[example_obs 2000 8 15 None]"
  have a: "\<forall>r \<in> set ?b. Discharge r = None" by (simp add: example_obs_def)
  from all_missing_bucket [of ?b] resample_ex1 obtain table
    where t: "GetAnnualStatistics ?b = Inr table"
      and r: "\<forall>(l, b) \<in> set [((2000, 9, 30), ?b)]. (\<forall>r \<in> set b. Discharge r = None) \<longrightarrow>
            (\<exists>row. map_of table l = Some row \<and>
               Mean_Flow row = NaN \<and> Peak_Flow row = NaN \<and> Median_Flow row = NaN \<and>
               Coeff_Var row = NaN \<and> Skew row = NaN \<and> RB_Index row = NaN \<and>
               sevenQ row = NaN \<and> exceed3xMedian row = Fin 0)"
    by blast
  from r a show ?thesis using t by auto
qed

text \<open>
  Claim C2 as stated fails on a water year whose only row has a missing discharge: the
  columns 3xMedian and Tqmean of its row are 0, not NaN.
\<close>

theorem all_missing_bucket_counterexample:
  "map_sum id (map fst) (GetAnnualStatistics [example_obs 2000 8 15 None]) =
     Inr [(2000, 9, 30)] \<and>
   map_sum id (map (exceed3xMedian \<circ> snd)) (GetAnnualStatistics [example_obs 2000 8 15 None]) =
     Inr [Fin 0] \<and>
   map_sum id (map (Tqmean \<circ> snd)) (GetAnnualStatistics [example_obs 2000 8 15 None]) =
     Inr [Fin 0]"
proof -
  let ?b = "[example_obs 2000 8 15 None]"
  have g: "GetAnnualStatistics ?b = Inr [((2000, 9, 30), annual_metrics ?b)]"
    using GetAnnualStatistics_rows [OF resample_ex1] by simp
  have t: "Tqmean (annual_metrics ?b) = Fin 0"
    by (simp add: annual_metrics_def example_obs_def CalcTqmean_def Series_mean_def
          count_gt_def fl_0)
  have x: "exceed3xMedian (annual_metrics ?b) = Fin 0"
    by (simp add: annual_metrics_def example_obs_def CalcExceed3TimesMedian_def
          Series_median_def count_gt_def)
  show ?thesis by (simp add: g t x)
qed

end
